theory Spec2Isabelle
  imports Complex_Main
begin

section \<open>The sync monitor \<^verbatim>\<open>scripts/monitor_synced.py\<close>\<close>

text \<open>
  The script polls a local metrics endpoint and a remote JSON-RPC endpoint through
  subprocesses, sleeps between polls and ends the process with \<^verbatim>\<open>exit\<close>.
  The embedding makes each of these effects a value:
  \<^item> what the subprocesses and the wall clock deliver is an input, the record \<open>env\<close>,
    consumed in the order of the calls;
  \<^item> what the script does to the outside (prints, sleeps, subprocess launches) is a list
    of \<open>event\<close>s, in the order of execution;
  \<^item> the way a piece of code ends is an \<open>outcome\<close>: it returns a value, calls
    \<^verbatim>\<open>exit(n)\<close>, dies from an exception nobody catches, or is still waiting for
    the environment where the finite description of the environment ends.
\<close>

subsection \<open>Constants (lines 15 to 19)\<close>

definition NUM_RETRIES :: nat where
  "NUM_RETRIES = 5"

definition CHECKPOINT_STUCK_THRESHOLD_SEC :: nat where
  "CHECKPOINT_STUCK_THRESHOLD_SEC = 10"

definition START_AWAIT_TIME_SEC :: nat where
  "START_AWAIT_TIME_SEC = 60"

definition EPOCH_STUCK_THRESHOLD_SEC :: nat where
  "EPOCH_STUCK_THRESHOLD_SEC = 20 * 60"

definition RETRY_BASE_TIME_SEC :: nat where
  "RETRY_BASE_TIME_SEC = 3"

subsection \<open>The metric enumeration (lines 22 to 24)\<close>

datatype Metric = CHECKPOINT | EPOCH

fun metric_value :: "Metric \<Rightarrow> string" where
  "metric_value CHECKPOINT = ''last_executed_checkpoint''"
| "metric_value EPOCH = ''current_epoch''"

subsection \<open>Python values and exceptions\<close>

text \<open>
  The exception classes the script can meet. \<open>GetoptError\<close> comes from the option
  parser, \<open>JSONDecodeError\<close> from \<^verbatim>\<open>json.loads\<close>; the others from indexing,
  membership tests, attribute access and \<^verbatim>\<open>int\<close>.
\<close>

datatype py_exc =
    KeyError | IndexError | JSONDecodeError | TypeError | ValueError
  | OverflowError | AttributeError | GetoptError

text \<open>
  A float is kept by its exact value; only \<^verbatim>\<open>int(x)\<close> looks at it. Strings and
  byte strings are lists of \<open>char\<close>; the model covers ASCII text.
\<close>

datatype pyfloat = Finite rat | PosInf | NegInf | NaN

text \<open>
  A decoded JSON document, as \<^verbatim>\<open>json.loads\<close> builds it: \<open>JObj\<close> lists the items
  of the resulting dict.
\<close>

datatype json =
    JNull
  | JBool bool
  | JInt int
  | JFloat pyfloat
  | JStr string
  | JArr "json list"
  | JObj "(string \<times> json) list"

subsection \<open>Whitespace, splitting and integer literals\<close>

text \<open>
  \<^verbatim>\<open>bytes.split()\<close> separates at runs of the six ASCII whitespace bytes, and
  \<^verbatim>\<open>int\<close>, of bytes as of an ASCII \<^verbatim>\<open>str\<close>, strips the same six characters
  and no other (the separators \<open>0x1C\<close> to \<open>0x1F\<close> are not stripped).
\<close>

definition is_space_bytes :: "char \<Rightarrow> bool" where
  "is_space_bytes c \<longleftrightarrow> c \<in> set [CHR '' '', CHR 0x09, CHR 0x0A, CHR 0x0B, CHR 0x0C, CHR 0x0D]"

fun split_from :: "string \<Rightarrow> string \<Rightarrow> string list" where
  "split_from cur [] = (if cur = [] then [] else [cur])"
| "split_from cur (c # cs) =
     (if is_space_bytes c
      then (if cur = [] then split_from [] cs else cur # split_from [] cs)
      else split_from (cur @ [c]) cs)"

definition py_split :: "string \<Rightarrow> string list" where
  "py_split s = split_from [] s"

definition strip :: "(char \<Rightarrow> bool) \<Rightarrow> string \<Rightarrow> string" where
  "strip sp s = rev (dropWhile sp (rev (dropWhile sp s)))"

definition digit_of :: "char \<Rightarrow> nat option" where
  "digit_of c = (if c \<in> set ''0123456789'' then Some (of_char c - 48) else None)"

text \<open>
  The digits of a decimal literal: a digit, then digits each optionally preceded by one
  underscore.
\<close>

fun more_digits :: "nat \<Rightarrow> string \<Rightarrow> nat option" where
  "more_digits acc [] = Some acc"
| "more_digits acc (c # cs) =
     (if c = CHR ''_''
      then (case cs of
              [] \<Rightarrow> None
            | d # ds \<Rightarrow>
                (case digit_of d of
                   None \<Rightarrow> None
                 | Some v \<Rightarrow> more_digits (10 * acc + v) ds))
      else (case digit_of c of
              None \<Rightarrow> None
            | Some v \<Rightarrow> more_digits (10 * acc + v) cs))"

definition digits_value :: "string \<Rightarrow> nat option" where
  "digits_value s =
     (case s of
        [] \<Rightarrow> None
      | c # cs \<Rightarrow> (case digit_of c of None \<Rightarrow> None | Some v \<Rightarrow> more_digits v cs))"

text \<open>
  \<^verbatim>\<open>int(s)\<close> in base ten: surrounding whitespace, one optional sign, the digits.
  \<open>None\<close> stands for the \<^verbatim>\<open>ValueError\<close> of a malformed literal. The interpreter's
  configurable cap on the number of digits is not part of the model.
\<close>

definition int_literal :: "(char \<Rightarrow> bool) \<Rightarrow> string \<Rightarrow> int option" where
  "int_literal sp s =
     (case strip sp s of
        [] \<Rightarrow> None
      | c # cs \<Rightarrow>
          if c = CHR ''-'' then map_option (\<lambda>n. - int n) (digits_value cs)
          else if c = CHR ''+'' then map_option int (digits_value cs)
          else map_option int (digits_value (c # cs)))"

text \<open>\<^verbatim>\<open>xs[i]\<close> on a list, for an index that is not negative.\<close>

definition py_index :: "'a list \<Rightarrow> nat \<Rightarrow> py_exc + 'a" where
  "py_index xs i = (if i < length xs then Inr (xs ! i) else Inl IndexError)"

subsection \<open>Outcomes, events and the environment\<close>

datatype 'a outcome =
    Return 'a
  | Exit int
  | Raise py_exc
  | Pending

text \<open>
  The lines the script prints, with the values they show. \<open>Synced\<close> carries the target
  epoch, the start epoch, the checkpoint delta and the elapsed time in microseconds (the
  script prints the latter as minutes with two decimals).
\<close>

datatype message =
    CurlFailed int string
  | RpcError json
  | RpcMalformed
  | NetworkEpochExhausted
  | LocalMetricExhausted Metric
  | Started nat
  | AwaitingStartup
  | StartFailed
  | Usage
  | WillSync int
  | CurrentLocalEpoch int
  | HighestCheckpoint int
  | CheckpointStuck int
  | NewLocalEpoch int
  | EpochStuck int
  | NewHighestCheckpoint int
  | Separator
  | Synced int int int int

datatype event =
    Print message
  | Sleep nat
  | CurlRpc string
  | CurlMetrics Metric

text \<open>
  What one run of the remote \<^verbatim>\<open>curl\<close> delivers: \<^verbatim>\<open>check_output\<close> raises
  \<^verbatim>\<open>CalledProcessError\<close> (return code, output), or returns bytes that
  \<^verbatim>\<open>json.loads\<close> either rejects with an exception or decodes.
\<close>

datatype response =
    CurlError int string
  | Body "py_exc + json"

text \<open>
  What one run of the local pipeline \<^verbatim>\<open>curl | grep | grep\<close> delivers:
  \<^verbatim>\<open>check_output\<close> raises \<^verbatim>\<open>CalledProcessError\<close> when the last \<^verbatim>\<open>grep\<close>
  exits with a status other than zero (it selected no line: nothing was fetched, or no
  line carries the metric's name), or returns the selected lines.
\<close>

datatype fetch =
    CalledProcessError int string
  | Output string

text \<open>
  The environment of one run: the results of the successive remote requests, of the
  successive local pipeline runs, and the successive readings of \<^verbatim>\<open>datetime.now()\<close>
  in microseconds.
\<close>

record env =
  rpc :: "response list"
  metrics :: "fetch list"
  clock :: "int list"

type_synonym 'a run = "env \<Rightarrow> 'a outcome \<times> event list \<times> env"

definition ret :: "'a \<Rightarrow> 'a run" where
  "ret x e = (Return x, [], e)"

definition exit_with :: "int \<Rightarrow> 'a run" where
  "exit_with n e = (Exit n, [], e)"

definition raise :: "py_exc \<Rightarrow> 'a run" where
  "raise x e = (Raise x, [], e)"

definition say :: "message \<Rightarrow> unit run" where
  "say m e = (Return (), [Print m], e)"

definition sleep :: "nat \<Rightarrow> unit run" where
  "sleep n e = (Return (), [Sleep n], e)"

definition now :: "int run" where
  "now e = (case clock e of
              [] \<Rightarrow> (Pending, [], e)
            | t # ts \<Rightarrow> (Return t, [], e\<lparr>clock := ts\<rparr>))"

text \<open>Sequencing: the second part runs only when the first returns.\<close>

definition and_then :: "'a run \<Rightarrow> ('a \<Rightarrow> 'b run) \<Rightarrow> 'b run" where
  "and_then m f e =
     (case m e of
        (Return x, ev, e') \<Rightarrow> (case f x e' of (r, ev', e'') \<Rightarrow> (r, ev @ ev', e''))
      | (Exit n, ev, e') \<Rightarrow> (Exit n, ev, e')
      | (Raise x, ev, e') \<Rightarrow> (Raise x, ev, e')
      | (Pending, ev, e') \<Rightarrow> (Pending, ev, e'))"

subsection \<open>One attempt of a retried operation\<close>

text \<open>
  The body of a retry loop ends in one of three ways: \<^verbatim>\<open>return\<close>, \<^verbatim>\<open>continue\<close>
  after a print and a sleep, or an exception that no handler of the loop catches.
\<close>

datatype 'a attempt =
    Success 'a
  | Retry "event list"
  | Uncaught py_exc

text \<open>The classes named by both \<^verbatim>\<open>except\<close> clauses (lines 46 and 70).\<close>

definition caught :: "py_exc \<Rightarrow> bool" where
  "caught x \<longleftrightarrow> x \<in> set [KeyError, IndexError, JSONDecodeError]"

subsection \<open>\<^verbatim>\<open>get_current_network_epoch\<close> (lines 27 to 51)\<close>

fun is_sublist_at :: "string \<Rightarrow> string \<Rightarrow> bool" where
  "is_sublist_at [] s = True"
| "is_sublist_at (p # ps) [] = False"
| "is_sublist_at (p # ps) (c # cs) = (p = c \<and> is_sublist_at ps cs)"

fun has_substring :: "string \<Rightarrow> string \<Rightarrow> bool" where
  "has_substring p [] = (p = [])"
| "has_substring p (c # cs) = (is_sublist_at p (c # cs) \<or> has_substring p cs)"

text \<open>\<^verbatim>\<open>key in x\<close> for a string \<open>key\<close>.\<close>

fun py_in :: "string \<Rightarrow> json \<Rightarrow> py_exc + bool" where
  "py_in k (JObj kvs) = Inr (k \<in> set (map fst kvs))"
| "py_in k (JArr xs) = Inr (JStr k \<in> set xs)"
| "py_in k (JStr s) = Inr (has_substring k s)"
| "py_in k _ = Inl TypeError"

text \<open>\<^verbatim>\<open>x[key]\<close> for a string \<open>key\<close>.\<close>

fun py_getitem :: "json \<Rightarrow> string \<Rightarrow> py_exc + json" where
  "py_getitem (JObj kvs) k = (case map_of kvs k of None \<Rightarrow> Inl KeyError | Some v \<Rightarrow> Inr v)"
| "py_getitem _ k = Inl TypeError"

text \<open>\<^verbatim>\<open>x[0]\<close>. The keys of a decoded JSON object are strings, so \<open>0\<close> is never one.\<close>

fun py_getitem0 :: "json \<Rightarrow> py_exc + json" where
  "py_getitem0 (JArr xs) = py_index xs 0"
| "py_getitem0 (JStr s) = (case s of [] \<Rightarrow> Inl IndexError | c # _ \<Rightarrow> Inr (JStr [c]))"
| "py_getitem0 (JObj kvs) = Inl KeyError"
| "py_getitem0 _ = Inl TypeError"

text \<open>\<^verbatim>\<open>int(x)\<close>.\<close>

fun py_int :: "json \<Rightarrow> py_exc + int" where
  "py_int (JInt n) = Inr n"
| "py_int (JBool b) = Inr (if b then 1 else 0)"
| "py_int (JFloat (Finite q)) = Inr (if 0 \<le> q then \<lfloor>q\<rfloor> else \<lceil>q\<rceil>)"
| "py_int (JFloat NaN) = Inl ValueError"
| "py_int (JFloat _) = Inl OverflowError"
| "py_int (JStr s) =
     (case int_literal is_space_bytes s of None \<Rightarrow> Inl ValueError | Some n \<Rightarrow> Inr n)"
| "py_int _ = Inl TypeError"

text \<open>Line 45: \<^verbatim>\<open>int(result['result']['data'][0]['epoch'])\<close>.\<close>

definition epoch_of :: "json \<Rightarrow> py_exc + int" where
  "epoch_of result =
     (case py_getitem result ''result'' of
        Inl x \<Rightarrow> Inl x
      | Inr r \<Rightarrow>
          (case py_getitem r ''data'' of
             Inl x \<Rightarrow> Inl x
           | Inr d \<Rightarrow>
               (case py_getitem0 d of
                  Inl x \<Rightarrow> Inl x
                | Inr d0 \<Rightarrow>
                    (case py_getitem d0 ''epoch'' of
                       Inl x \<Rightarrow> Inl x
                     | Inr ep \<Rightarrow> py_int ep))))"

text \<open>The handler of lines 46 to 49, for an exception raised in lines 40 to 45.\<close>

definition rpc_handler :: "nat \<Rightarrow> py_exc \<Rightarrow> int attempt" where
  "rpc_handler i x =
     (if caught x
      then Retry [Print RpcMalformed, Sleep (RETRY_BASE_TIME_SEC * 2 ^ i)]
      else Uncaught x)"

text \<open>Lines 32 to 49: what attempt \<open>i\<close> does with the result of its \<^verbatim>\<open>curl\<close>.\<close>

definition rpc_attempt :: "nat \<Rightarrow> response \<Rightarrow> int attempt" where
  "rpc_attempt i r =
     (case r of
        CurlError rc out \<Rightarrow>
          Retry [Print (CurlFailed rc out), Sleep (RETRY_BASE_TIME_SEC * 2 ^ i)]
      | Body (Inl x) \<Rightarrow> rpc_handler i x
      | Body (Inr result) \<Rightarrow>
          (case py_in ''error'' result of
             Inl x \<Rightarrow> rpc_handler i x
           | Inr True \<Rightarrow>
               (case py_getitem result ''error'' of
                  Inl x \<Rightarrow> rpc_handler i x
                | Inr err \<Rightarrow> Retry [Print (RpcError err), Sleep 3])
           | Inr False \<Rightarrow>
               (case epoch_of result of
                  Inl x \<Rightarrow> rpc_handler i x
                | Inr v \<Rightarrow> Success v)))"

text \<open>
  The loop \<^verbatim>\<open>for i in range(NUM_RETRIES)\<close> over the remaining indices, and lines 50 and
  51 after it.
\<close>

fun rpc_attempts :: "nat list \<Rightarrow> string \<Rightarrow> int run" where
  "rpc_attempts [] network e = (Exit 1, [Print NetworkEpochExhausted], e)"
| "rpc_attempts (i # is) network e =
     (case rpc e of
        [] \<Rightarrow> (Pending, [CurlRpc network], e)
      | r # rs \<Rightarrow>
          (case rpc_attempt i r of
             Success v \<Rightarrow> (Return v, [CurlRpc network], e\<lparr>rpc := rs\<rparr>)
           | Uncaught x \<Rightarrow> (Raise x, [CurlRpc network], e\<lparr>rpc := rs\<rparr>)
           | Retry evs \<Rightarrow>
               (case rpc_attempts is network (e\<lparr>rpc := rs\<rparr>) of
                  (out, ev, e') \<Rightarrow> (out, CurlRpc network # evs @ ev, e'))))"

definition get_current_network_epoch :: "string \<Rightarrow> int run" where
  "get_current_network_epoch network = rpc_attempts [0..<NUM_RETRIES] network"

subsection \<open>\<^verbatim>\<open>get_local_metric\<close> (lines 54 to 77)\<close>

text \<open>
  Line 69 is \<^verbatim>\<open>int(result.split()[1])\<close>. Its handler (lines 70 to 74) names the
  classes of \<open>caught\<close>, and its first statement formats \<^verbatim>\<open>result.stdout\<close>, an
  attribute that the bytes returned by \<^verbatim>\<open>check_output\<close> do not have: the handler
  itself raises \<^verbatim>\<open>AttributeError\<close> before it sleeps.
\<close>

definition metric_handler :: "nat \<Rightarrow> py_exc \<Rightarrow> int attempt" where
  "metric_handler i x = (if caught x then Uncaught AttributeError else Uncaught x)"

definition metric_attempt :: "Metric \<Rightarrow> nat \<Rightarrow> fetch \<Rightarrow> int attempt" where
  "metric_attempt metric i r =
     (case r of
        CalledProcessError rc out \<Rightarrow>
          Retry [Print (CurlFailed rc out), Sleep (RETRY_BASE_TIME_SEC * 2 ^ i)]
      | Output result \<Rightarrow>
          (case py_index (py_split result) 1 of
             Inl x \<Rightarrow> metric_handler i x
           | Inr tok \<Rightarrow>
               (case int_literal is_space_bytes tok of
                  None \<Rightarrow> metric_handler i ValueError
                | Some v \<Rightarrow> Success v)))"

fun metric_attempts :: "nat list \<Rightarrow> Metric \<Rightarrow> int run" where
  "metric_attempts [] metric e = (Exit 1, [Print (LocalMetricExhausted metric)], e)"
| "metric_attempts (i # is) metric e =
     (case metrics e of
        [] \<Rightarrow> (Pending, [CurlMetrics metric], e)
      | r # rs \<Rightarrow>
          (case metric_attempt metric i r of
             Success v \<Rightarrow> (Return v, [CurlMetrics metric], e\<lparr>metrics := rs\<rparr>)
           | Uncaught x \<Rightarrow> (Raise x, [CurlMetrics metric], e\<lparr>metrics := rs\<rparr>)
           | Retry evs \<Rightarrow>
               (case metric_attempts is metric (e\<lparr>metrics := rs\<rparr>) of
                  (out, ev, e') \<Rightarrow> (out, CurlMetrics metric # evs @ ev, e'))))"

definition get_local_metric :: "Metric \<Rightarrow> int run" where
  "get_local_metric metric = metric_attempts [0..<NUM_RETRIES] metric"

lemma metric_attempts_consumes:
  "metric_attempts is metric e = (Return v, ev, e') \<Longrightarrow> length (metrics e') < length (metrics e)"
proof (induction "is" arbitrary: e ev)
  case Nil
  then show ?case by simp
next
  case (Cons i "is")
  show ?case
  proof (cases "metrics e")
    case Nil
    with Cons.prems show ?thesis by simp
  next
    case (Cons r rs)
    note env = this
    show ?thesis
    proof (cases "metric_attempt metric i r")
      case (Success x)
      with Cons.prems env show ?thesis by auto
    next
      case (Retry evs)
      with Cons.prems env obtain ev2
        where "metric_attempts is metric (e\<lparr>metrics := rs\<rparr>) = (Return v, ev2, e')"
        by (auto split: prod.splits)
      from Cons.IH [OF this] env show ?thesis by simp
    next
      case (Uncaught x)
      with Cons.prems env show ?thesis by simp
    qed
  qed
qed

lemma get_local_metric_consumes:
  "get_local_metric metric e = (Return v, ev, e') \<Longrightarrow> length (metrics e') < length (metrics e)"
  unfolding get_local_metric_def by (rule metric_attempts_consumes)

subsection \<open>\<^verbatim>\<open>await_started\<close> (lines 80 to 88)\<close>

text \<open>
  The loop \<^verbatim>\<open>for i in range(START_AWAIT_TIME_SEC)\<close> over the remaining indices; the
  empty list is the loop running out, followed by line 87.
\<close>

fun await_polls :: "nat list \<Rightarrow> int \<Rightarrow> unit run" where
  "await_polls [] start_checkpoint = say StartFailed"
| "await_polls (i # is) start_checkpoint =
     and_then (get_local_metric CHECKPOINT) (\<lambda>v.
       if v \<noteq> start_checkpoint
       then say (Started i)
       else and_then (say AwaitingStartup) (\<lambda>_.
            and_then (sleep 1) (\<lambda>_.
            await_polls is start_checkpoint)))"

definition await_started :: "int \<Rightarrow> unit run" where
  "await_started start_checkpoint = await_polls [0..<START_AWAIT_TIME_SEC] start_checkpoint"

subsection \<open>The polling loop of \<^verbatim>\<open>main\<close> (lines 120 to 150)\<close>

text \<open>
  The local variables of \<^verbatim>\<open>main\<close> that the loop reads and writes. Times are
  \<^verbatim>\<open>datetime\<close> values, counted in microseconds, the resolution of the type.
\<close>

record run_state =
  start_epoch :: int
  current_epoch :: int
  end_epoch :: int
  start_checkpoint :: int
  current_checkpoint :: int
  start_time :: int
  current_time :: int

text \<open>
  Line 140 compares \<^verbatim>\<open>total_seconds()\<close> of a difference of two readings with the
  threshold in seconds. The difference is a whole number of microseconds, and its quotient
  by \<open>10\<^sup>6\<close> exceeds the threshold exactly when the difference exceeds the threshold
  in microseconds.
\<close>

definition epoch_stuck :: "int \<Rightarrow> int \<Rightarrow> bool" where
  "epoch_stuck t since \<longleftrightarrow> t - since > int EPOCH_STUCK_THRESHOLD_SEC * 1000000"

text \<open>Lines 133 to 143: the epoch check, on the state whose checkpoint is already updated.\<close>

definition check_epoch :: "run_state \<Rightarrow> run_state run" where
  "check_epoch s =
     and_then (get_local_metric EPOCH) (\<lambda>new_epoch.
       if new_epoch > current_epoch s
       then and_then (say (NewLocalEpoch new_epoch)) (\<lambda>_.
            and_then now (\<lambda>t.
            ret (s\<lparr>current_epoch := new_epoch, current_time := t\<rparr>)))
       else and_then now (\<lambda>t.
            if epoch_stuck t (current_time s)
            then and_then (say (EpochStuck (current_epoch s))) (\<lambda>_. exit_with 1)
            else ret s))"

text \<open>Lines 124 to 144: the body of the \<^verbatim>\<open>while\<close> loop.\<close>

definition poll_iteration :: "run_state \<Rightarrow> run_state run" where
  "poll_iteration s =
     and_then (sleep CHECKPOINT_STUCK_THRESHOLD_SEC) (\<lambda>_.
     and_then (get_local_metric CHECKPOINT) (\<lambda>new_checkpoint.
       if new_checkpoint = current_checkpoint s
       then and_then (say (CheckpointStuck (current_checkpoint s))) (\<lambda>_. exit_with 1)
       else and_then (check_epoch (s\<lparr>current_checkpoint := new_checkpoint\<rparr>)) (\<lambda>s'.
            and_then (say (NewHighestCheckpoint (current_checkpoint s'))) (\<lambda>_.
            ret s'))))"

lemma and_then_Return:
  "and_then m f e = (Return y, ev, e') \<Longrightarrow>
     \<exists>x ev1 e1 ev2. m e = (Return x, ev1, e1) \<and> f x e1 = (Return y, ev2, e') \<and> ev = ev1 @ ev2"
  by (auto simp: and_then_def split: prod.splits outcome.splits)

lemma poll_iteration_consumes:
  assumes "poll_iteration s e = (Return s', ev, e')"
  shows "length (metrics e') < length (metrics e)"
proof -
  from assms obtain c ev1 e1 ev2 where
    c: "get_local_metric CHECKPOINT e = (Return c, ev1, e1)" and
    rest: "(if c = current_checkpoint s
            then and_then (say (CheckpointStuck (current_checkpoint s))) (\<lambda>_. exit_with 1)
            else and_then (check_epoch (s\<lparr>current_checkpoint := c\<rparr>)) (\<lambda>s'.
                 and_then (say (NewHighestCheckpoint (current_checkpoint s'))) (\<lambda>_.
                 ret s'))) e1 = (Return s', ev2, e')"
    unfolding poll_iteration_def
    by (auto simp: sleep_def dest!: and_then_Return)
  have stuck: "and_then (say m) (\<lambda>_. exit_with 1) e1 \<noteq> (Return s', ev2, e')" for m
    by (simp add: and_then_def say_def exit_with_def)
  from rest stuck have neq: "c \<noteq> current_checkpoint s"
    by (auto split: if_splits)
  with rest obtain s2 ev3 e3 where
    "check_epoch (s\<lparr>current_checkpoint := c\<rparr>) e1 = (Return s2, ev3, e3)" and
    e3: "e3 = e'"
    by (auto simp: say_def ret_def dest!: and_then_Return)
  then obtain v ev4 e4 ev5 where
    ep: "get_local_metric EPOCH e1 = (Return v, ev4, e4)" and
    tail: "(if v > current_epoch (s\<lparr>current_checkpoint := c\<rparr>)
            then and_then (say (NewLocalEpoch v)) (\<lambda>_.
                 and_then now (\<lambda>t.
                 ret (s\<lparr>current_checkpoint := c, current_epoch := v, current_time := t\<rparr>)))
            else and_then now (\<lambda>t.
                 if epoch_stuck t (current_time (s\<lparr>current_checkpoint := c\<rparr>))
                 then and_then (say (EpochStuck (current_epoch (s\<lparr>current_checkpoint := c\<rparr>))))
                        (\<lambda>_. exit_with 1)
                 else ret (s\<lparr>current_checkpoint := c\<rparr>))) e4 = (Return s2, ev5, e3)"
    unfolding check_epoch_def by (auto dest!: and_then_Return)
  from tail have "metrics e3 = metrics e4"
    by (auto simp: now_def say_def ret_def exit_with_def and_then_def
        split: if_splits list.splits prod.splits outcome.splits)
  with get_local_metric_consumes [OF c] get_local_metric_consumes [OF ep] e3
  show ?thesis by simp
qed

text \<open>
  The loop \<^verbatim>\<open>while current_epoch < end_epoch\<close> (line 122). Every iteration that
  completes has read the metrics source, so the loop comes to an end on every finite
  description of the environment.
\<close>

function polling :: "run_state \<Rightarrow> run_state run" where
  "polling s e =
     (if current_epoch s < end_epoch s
      then (case poll_iteration s e of
              (Return s', ev, e') \<Rightarrow>
                (case polling s' e' of (out, ev', e'') \<Rightarrow> (out, ev @ ev', e''))
            | (Exit n, ev, e') \<Rightarrow> (Exit n, ev, e')
            | (Raise x, ev, e') \<Rightarrow> (Raise x, ev, e')
            | (Pending, ev, e') \<Rightarrow> (Pending, ev, e'))
      else (Return s, [], e))"
  by pat_completeness auto
termination
  apply (relation "measure (\<lambda>(s, e). length (metrics e))")
   apply simp
  apply (auto dest: poll_iteration_consumes [OF sym])
  done

subsection \<open>The option parser called in line 96\<close>

text \<open>
  \<^verbatim>\<open>getopt.getopt(argv, '', ["env=", "end-epoch="])\<close> of the standard library, for
  an empty string of short options: a long option may be abbreviated to a prefix that
  fits one name only, its argument follows \<open>=\<close> or is the next word, and parsing stops at
  the first word that is not an option.
\<close>

definition starts_with :: "string \<Rightarrow> string \<Rightarrow> bool" where
  "starts_with p s \<longleftrightarrow> take (length p) s = p"

definition long_has_args :: "string \<Rightarrow> string list \<Rightarrow> py_exc + (bool \<times> string)" where
  "long_has_args opt longopts =
     (case filter (starts_with opt) longopts of
        [] \<Rightarrow> Inl GetoptError
      | u # us \<Rightarrow>
          if opt \<in> set (u # us) then Inr (False, opt)
          else if opt @ ''='' \<in> set (u # us) then Inr (True, opt)
          else if us \<noteq> [] then Inl GetoptError
          else if u \<noteq> [] \<and> last u = CHR ''=''
          then Inr (True, butlast u)
          else Inr (False, u))"

definition do_longs ::
  "(string \<times> string) list \<Rightarrow> string \<Rightarrow> string list \<Rightarrow> string list \<Rightarrow>
   py_exc + ((string \<times> string) list \<times> string list)" where
  "do_longs opts word longopts args =
     (let opt = takeWhile (\<lambda>c. c \<noteq> CHR ''='') word;
          optarg = (if CHR ''='' \<in> set word
                    then Some (tl (dropWhile (\<lambda>c. c \<noteq> CHR ''='') word))
                    else None)
      in case long_has_args opt longopts of
           Inl x \<Rightarrow> Inl x
         | Inr (has_arg, name) \<Rightarrow>
             if has_arg
             then (case optarg of
                     None \<Rightarrow>
                       (case args of
                          [] \<Rightarrow> Inl GetoptError
                        | a # rest \<Rightarrow> Inr (opts @ [(''--'' @ name, a)], rest))
                   | Some v \<Rightarrow> Inr (opts @ [(''--'' @ name, v)], args))
             else (case optarg of
                     None \<Rightarrow> Inr (opts @ [(''--'' @ name, [])], args)
                   | Some v \<Rightarrow> Inl GetoptError))"

lemma do_longs_args:
  "do_longs opts word longopts args = Inr (opts', args') \<Longrightarrow> length args' \<le> length args"
  by (auto simp: do_longs_def Let_def split: sum.splits if_splits option.splits list.splits)

function getopt ::
  "(string \<times> string) list \<Rightarrow> string list \<Rightarrow> string list \<Rightarrow>
   py_exc + ((string \<times> string) list \<times> string list)" where
  "getopt opts longopts [] = Inr (opts, [])"
| "getopt opts longopts (a # args) =
     (if starts_with ''-'' a \<and> a \<noteq> ''-''
      then (if a = ''--'' then Inr (opts, args)
            else if starts_with ''--'' a
            then (case do_longs opts (drop 2 a) longopts args of
                    Inl x \<Rightarrow> Inl x
                  | Inr (opts', args') \<Rightarrow> getopt opts' longopts args')
            else Inl GetoptError)
      else Inr (opts, a # args))"
  by pat_completeness auto
termination
  apply (relation "measure (\<lambda>(opts, longopts, args). length args)")
   apply simp
  apply (auto dest: do_longs_args simp: less_Suc_eq_le)
  done

subsection \<open>\<^verbatim>\<open>main\<close> (lines 90 to 150)\<close>

text \<open>Lines 98 to 104: the loop over the parsed options.\<close>

fun read_opts ::
  "(string \<times> string) list \<Rightarrow> string \<times> int option \<Rightarrow> py_exc + (string \<times> int option)" where
  "read_opts [] (network, end) = Inr (network, end)"
| "read_opts ((opt, arg) # opts) (network, end) =
     (if opt = ''--env'' then read_opts opts (arg, end)
      else if opt = ''--end-epoch''
      then (case int_literal is_space_bytes arg of
              None \<Rightarrow> Inl ValueError
            | Some v \<Rightarrow> read_opts opts (network, Some v))
      else read_opts opts (network, end))"

text \<open>Lines 120 to 150: the loop between two clock readings, the report and \<^verbatim>\<open>exit(0)\<close>.\<close>

definition sync :: "int \<Rightarrow> int \<Rightarrow> int \<Rightarrow> unit run" where
  "sync target epoch0 checkpoint0 =
     and_then now (\<lambda>t0.
     and_then (polling \<lparr>start_epoch = epoch0, current_epoch = epoch0, end_epoch = target,
                        start_checkpoint = checkpoint0, current_checkpoint = checkpoint0,
                        start_time = t0, current_time = t0\<rparr>) (\<lambda>s.
     and_then now (\<lambda>t.
     and_then (say Separator) (\<lambda>_.
     and_then (say (Synced (end_epoch s) (start_epoch s)
                      (current_checkpoint s - start_checkpoint s) (t - start_time s))) (\<lambda>_.
     exit_with 0)))))"

text \<open>Lines 108 to 150: the run once the target epoch is known.\<close>

definition monitor :: "int \<Rightarrow> unit run" where
  "monitor target =
     and_then (say (WillSync target)) (\<lambda>_.
     and_then (get_local_metric EPOCH) (\<lambda>epoch0.
     and_then (say (CurrentLocalEpoch epoch0)) (\<lambda>_.
     and_then (get_local_metric CHECKPOINT) (\<lambda>checkpoint0.
     and_then (say (HighestCheckpoint checkpoint0)) (\<lambda>_.
     and_then (await_started checkpoint0) (\<lambda>_.
     sync target epoch0 checkpoint0))))))"

definition main :: "string list \<Rightarrow> unit run" where
  "main argv =
     (if length argv > 2
      then and_then (say Usage) (\<lambda>_. exit_with 1)
      else (case getopt [] [''env='', ''end-epoch=''] argv of
              Inl x \<Rightarrow> raise x
            | Inr (opts, args) \<Rightarrow>
                (case read_opts opts (''testnet'', None) of
                   Inl x \<Rightarrow> raise x
                 | Inr (network, end) \<Rightarrow>
                     and_then (case end of
                                 None \<Rightarrow> get_current_network_epoch network
                               | Some v \<Rightarrow> ret v)
                       monitor)))"

section \<open>Properties\<close>

subsection \<open>Helpers for stating the properties\<close>

text \<open>The seconds slept, in order.\<close>

fun sleeps :: "event list \<Rightarrow> nat list" where
  "sleeps [] = []"
| "sleeps (Sleep n # evs) = n # sleeps evs"
| "sleeps (_ # evs) = sleeps evs"


text \<open>Replies of the remote endpoint: a JSON-RPC error, and a page holding one epoch.\<close>

definition rpc_error_reply :: json where
  "rpc_error_reply =
     JObj [(''jsonrpc'', JStr ''2.0''),
           (''error'', JObj [(''code'', JInt (- 32000)), (''message'', JStr ''busy'')]),
           (''id'', JInt 1)]"

definition epoch_reply :: "json \<Rightarrow> json" where
  "epoch_reply ep =
     JObj [(''jsonrpc'', JStr ''2.0''),
           (''result'', JObj [(''data'', JArr [JObj [(''epoch'', ep)]])]),
           (''id'', JInt 1)]"


subsection \<open>Backoff delays\<close>

text \<open>
  Every \<^verbatim>\<open>continue\<close> of the local read, and every \<^verbatim>\<open>continue\<close> of the remote
  fetch but the one after a JSON-RPC error reply, sleeps \<open>3 * 2 ^ i\<close> seconds after the
  failed attempt \<open>i\<close>.
\<close>

lemma metric_attempt_backoff:
  "metric_attempt metric i r = Retry evs \<Longrightarrow> sleeps evs = [3 * 2 ^ i]"
  by (auto simp: metric_attempt_def metric_handler_def RETRY_BASE_TIME_SEC_def
      split: fetch.splits sum.splits option.splits if_splits)

lemma rpc_attempt_backoff:
  "rpc_attempt i r = Retry evs \<Longrightarrow>
     sleeps evs = [3 * 2 ^ i] \<or> (\<exists>err. evs = [Print (RpcError err), Sleep 3])"
  by (auto simp: rpc_attempt_def rpc_handler_def RETRY_BASE_TIME_SEC_def
      split: response.splits sum.splits bool.splits if_splits)

text \<open>
  C1 (the delay after failed attempt \<open>i\<close> is \<open>3 * 2 ^ i\<close> seconds in every failure branch
  of both operations: 3, 6, 12, 24, 48, in total 93). The code at an input where the claim
  fails: when the remote endpoint answers five times with a JSON-RPC error object, line 43
  sleeps a fixed 3 seconds after each attempt, 15 seconds in total, and the fetch ends the
  process with status 1. The branches of lines 36 and 48 of the same loop do sleep
  3, 6, 12, 24 and 48 seconds, as five failed \<^verbatim>\<open>curl\<close> runs show.
\<close>

theorem rpc_error_branch_sleeps_three_seconds:
  "get_current_network_epoch ''testnet''
     \<lparr>rpc = replicate 5 (Body (Inr rpc_error_reply)), metrics = [], clock = []\<rparr>
   = (Exit 1,
      [CurlRpc ''testnet'', Print (RpcError (JObj [(''code'', JInt (- 32000)), (''message'', JStr ''busy'')])), Sleep 3,
       CurlRpc ''testnet'', Print (RpcError (JObj [(''code'', JInt (- 32000)), (''message'', JStr ''busy'')])), Sleep 3,
       CurlRpc ''testnet'', Print (RpcError (JObj [(''code'', JInt (- 32000)), (''message'', JStr ''busy'')])), Sleep 3,
       CurlRpc ''testnet'', Print (RpcError (JObj [(''code'', JInt (- 32000)), (''message'', JStr ''busy'')])), Sleep 3,
       CurlRpc ''testnet'', Print (RpcError (JObj [(''code'', JInt (- 32000)), (''message'', JStr ''busy'')])), Sleep 3,
       Print NetworkEpochExhausted],
      \<lparr>rpc = [], metrics = [], clock = []\<rparr>)
   \<and> sleeps (fst (snd (get_current_network_epoch ''testnet''
         \<lparr>rpc = replicate 5 (Body (Inr rpc_error_reply)), metrics = [], clock = []\<rparr>)))
       = [3, 3, 3, 3, 3]
   \<and> sleeps (fst (snd (get_current_network_epoch ''testnet''
         \<lparr>rpc = replicate 5 (CurlError 7 []), metrics = [], clock = []\<rparr>)))
       = [3, 6, 12, 24, 48]"
  by code_simp

subsection \<open>Failures that are not retried\<close>

text \<open>
  C2 (in the local read, a failed fetch, a missing line and a value that is not an integer
  are all retried, and a later attempt that succeeds returns its value). The code at
  inputs where the claim fails: a value token that is not an integer literal makes
  \<^verbatim>\<open>int\<close> raise \<^verbatim>\<open>ValueError\<close>, which the handler of line 70 does not name, and a
  line without a value token makes the handler run and raise \<^verbatim>\<open>AttributeError\<close> in
  its own print. In both runs the process dies in the first attempt, and the second
  result, which would parse to 13, is never fetched. A failed pipeline is retried: the
  last run returns 13 after one sleep of 3 seconds.
\<close>

theorem unparsable_metric_value_is_not_retried:
  "get_local_metric EPOCH
     \<lparr>rpc = [], metrics = [Output ''current_epoch 12.5'', Output ''current_epoch 13''],
      clock = []\<rparr>
   = (Raise ValueError, [CurlMetrics EPOCH],
      \<lparr>rpc = [], metrics = [Output ''current_epoch 13''], clock = []\<rparr>)
   \<and> get_local_metric EPOCH
     \<lparr>rpc = [], metrics = [Output ''current_epoch'', Output ''current_epoch 13''],
      clock = []\<rparr>
   = (Raise AttributeError, [CurlMetrics EPOCH],
      \<lparr>rpc = [], metrics = [Output ''current_epoch 13''], clock = []\<rparr>)
   \<and> get_local_metric EPOCH
     \<lparr>rpc = [], metrics = [CalledProcessError 1 [], Output ''current_epoch 13''],
      clock = []\<rparr>
   = (Return 13,
      [CurlMetrics EPOCH, Print (CurlFailed 1 []), Sleep 3, CurlMetrics EPOCH],
      \<lparr>rpc = [], metrics = [], clock = []\<rparr>)"
  by code_simp

text \<open>
  C3 (in the remote fetch, a transport failure, a JSON-RPC error and a malformed reply,
  an epoch that is no integer included, are all retried with the exponential backoff, and
  a later attempt that succeeds returns the epoch). The code at inputs where the claim
  fails: an epoch string that is not an integer literal makes \<^verbatim>\<open>int\<close> raise
  \<^verbatim>\<open>ValueError\<close>, which the handler of line 46 does not name, so the process dies in
  the first attempt although the second reply holds epoch 12; and the retry after a
  JSON-RPC error reply in attempt 1 sleeps 3 seconds where the backoff policy gives 6.
\<close>

theorem malformed_epoch_is_not_retried:
  "get_current_network_epoch ''testnet''
     \<lparr>rpc = [Body (Inr (epoch_reply (JStr ''abc''))), Body (Inr (epoch_reply (JStr ''12'')))],
      metrics = [], clock = []\<rparr>
   = (Raise ValueError, [CurlRpc ''testnet''],
      \<lparr>rpc = [Body (Inr (epoch_reply (JStr ''12'')))], metrics = [], clock = []\<rparr>)
   \<and> get_current_network_epoch ''testnet''
     \<lparr>rpc = [CurlError 7 [], Body (Inr rpc_error_reply), Body (Inr (epoch_reply (JStr ''12'')))],
      metrics = [], clock = []\<rparr>
   = (Return 12,
      [CurlRpc ''testnet'', Print (CurlFailed 7 []), Sleep 3,
       CurlRpc ''testnet'',
       Print (RpcError (JObj [(''code'', JInt (- 32000)), (''message'', JStr ''busy'')])), Sleep 3,
       CurlRpc ''testnet''],
      \<lparr>rpc = [], metrics = [], clock = []\<rparr>)"
  by code_simp

subsection \<open>Retry exhaustion\<close>






subsection \<open>Sequencing\<close>

declare polling.simps [simp del]

lemma and_then_say [simp]:
  "and_then (say m) f e = (case f () e of (r, ev, e') \<Rightarrow> (r, Print m # ev, e'))"
  by (simp add: and_then_def say_def)

lemma and_then_sleep [simp]:
  "and_then (sleep n) f e = (case f () e of (r, ev, e') \<Rightarrow> (r, Sleep n # ev, e'))"
  by (simp add: and_then_def sleep_def)

lemma and_then_returns:
  "m e = (Return x, ev, e') \<Longrightarrow>
     and_then m f e = (case f x e' of (r, ev', e'') \<Rightarrow> (r, ev @ ev', e''))"
  by (simp add: and_then_def)

subsection \<open>The startup wait\<close>

text \<open>
  \<open>steady_reads k c e\<close>: the next \<open>k\<close> reads of the checkpoint metric in environment
  \<open>e\<close> all return \<open>c\<close>; the result holds the events of each read and the environment
  left after them.
\<close>

fun steady_reads :: "nat \<Rightarrow> int \<Rightarrow> env \<Rightarrow> (event list list \<times> env) option" where
  "steady_reads 0 c e = Some ([], e)"
| "steady_reads (Suc k) c e =
     (case get_local_metric CHECKPOINT e of
        (Return v, ev, e') \<Rightarrow>
          if v = c
          then (case steady_reads k c e' of
                  None \<Rightarrow> None
                | Some (evs, e'') \<Rightarrow> Some (ev # evs, e''))
          else None
      | _ \<Rightarrow> None)"

text \<open>What \<^verbatim>\<open>await_started\<close> does around reads that show no change: lines 85 and 86.\<close>

definition awaiting :: "event list list \<Rightarrow> event list" where
  "awaiting evs = concat (map (\<lambda>ev. ev @ [Print AwaitingStartup, Sleep 1]) evs)"

lemma await_polls_steady:
  "steady_reads k c e = Some (evs, e1) \<Longrightarrow> k \<le> length is \<Longrightarrow>
     await_polls is c e =
       (case await_polls (drop k is) c e1 of (out, ev, e') \<Rightarrow> (out, awaiting evs @ ev, e'))"
proof (induction k arbitrary: "is" e evs)
  case 0
  then show ?case by (simp add: awaiting_def split: prod.splits)
next
  case (Suc k)
  from Suc.prems(2) obtain i is' where is_eq: "is = i # is'" and len: "k \<le> length is'"
    by (cases "is") auto
  from Suc.prems(1) obtain ev0 e0 evs' where
    rd: "get_local_metric CHECKPOINT e = (Return c, ev0, e0)" and
    st: "steady_reads k c e0 = Some (evs', e1)" and
    evs: "evs = ev0 # evs'"
    by (auto split: prod.splits outcome.splits if_splits option.splits)
  from Suc.IH [OF st len]
  have ih: "await_polls is' c e0 =
       (case await_polls (drop k is') c e1 of (out, ev, e') \<Rightarrow> (out, awaiting evs' @ ev, e'))" .
  from rd show ?case
    unfolding is_eq
    by (simp add: and_then_returns ih evs awaiting_def split: prod.splits)
qed

lemma await_polls_stops:
  "fst (await_polls is c e) = r \<Longrightarrow> r \<noteq> Return () \<Longrightarrow>
     \<exists>k<length is. \<exists>evs e1. steady_reads k c e = Some (evs, e1)
        \<and> (case fst (get_local_metric CHECKPOINT e1) of
              Return v \<Rightarrow> False | Exit n \<Rightarrow> r = Exit n | Raise x \<Rightarrow> r = Raise x | Pending \<Rightarrow> r = Pending)"
proof (induction "is" arbitrary: e)
  case Nil
  then show ?case by (simp add: say_def)
next
  case (Cons i "is")
  obtain out ev0 e0 where rd: "get_local_metric CHECKPOINT e = (out, ev0, e0)"
    by (cases "get_local_metric CHECKPOINT e") auto
  show ?case
  proof (cases out)
    case (Return v)
    show ?thesis
    proof (cases "v = c")
      case True
      with Cons.prems rd Return
      have "fst (await_polls is c e0) = r"
        by (simp add: and_then_returns split: prod.splits)
      from Cons.IH [OF this Cons.prems(2)] obtain k evs e1 where
        k: "k < length is" and st: "steady_reads k c e0 = Some (evs, e1)" and
        out: "(case fst (get_local_metric CHECKPOINT e1) of
              Return v \<Rightarrow> False | Exit n \<Rightarrow> r = Exit n | Raise x \<Rightarrow> r = Raise x | Pending \<Rightarrow> r = Pending)"
        by blast
      from st rd Return True have "steady_reads (Suc k) c e = Some (ev0 # evs, e1)"
        by simp
      with k out show ?thesis
        by (intro exI [of _ "Suc k"]) auto
    next
      case False
      with Cons.prems rd Return show ?thesis
        by (simp add: and_then_returns say_def)
    qed
  next
    case (Exit n)
    with Cons.prems rd have "r = Exit n"
      by (simp add: and_then_def)
    with rd Exit show ?thesis
      by (intro exI [of _ 0]) simp
  next
    case (Raise x)
    with Cons.prems rd have "r = Raise x"
      by (simp add: and_then_def)
    with rd Raise show ?thesis
      by (intro exI [of _ 0]) simp
  next
    case Pending
    with Cons.prems rd have "r = Pending"
      by (simp add: and_then_def)
    with rd Pending show ?thesis
      by (intro exI [of _ 0]) simp
  qed
qed

subsection \<open>One iteration of the polling loop, spelled out\<close>

lemma poll_iteration_unfold:
  "poll_iteration s e =
     (case get_local_metric CHECKPOINT e of
        (Return c, ev1, e1) \<Rightarrow>
          if c = current_checkpoint s
          then (Exit 1, Sleep 10 # ev1 @ [Print (CheckpointStuck c)], e1)
          else (case get_local_metric EPOCH e1 of
                  (Return ep, ev2, e2) \<Rightarrow>
                    (case clock e2 of
                       [] \<Rightarrow>
                         (Pending,
                          Sleep 10 # ev1 @ ev2 @
                            (if ep > current_epoch s then [Print (NewLocalEpoch ep)] else []),
                          e2)
                     | t # ts \<Rightarrow>
                         if ep > current_epoch s
                         then (Return (s\<lparr>current_checkpoint := c, current_epoch := ep,
                                         current_time := t\<rparr>),
                               Sleep 10 # ev1 @ ev2 @
                                 [Print (NewLocalEpoch ep), Print (NewHighestCheckpoint c)],
                               e2\<lparr>clock := ts\<rparr>)
                         else if epoch_stuck t (current_time s)
                         then (Exit 1,
                               Sleep 10 # ev1 @ ev2 @ [Print (EpochStuck (current_epoch s))],
                               e2\<lparr>clock := ts\<rparr>)
                         else (Return (s\<lparr>current_checkpoint := c\<rparr>),
                               Sleep 10 # ev1 @ ev2 @ [Print (NewHighestCheckpoint c)],
                               e2\<lparr>clock := ts\<rparr>))
                | (Exit n, ev2, e2) \<Rightarrow> (Exit n, Sleep 10 # ev1 @ ev2, e2)
                | (Raise x, ev2, e2) \<Rightarrow> (Raise x, Sleep 10 # ev1 @ ev2, e2)
                | (Pending, ev2, e2) \<Rightarrow> (Pending, Sleep 10 # ev1 @ ev2, e2))
      | (Exit n, ev1, e1) \<Rightarrow> (Exit n, Sleep 10 # ev1, e1)
      | (Raise x, ev1, e1) \<Rightarrow> (Raise x, Sleep 10 # ev1, e1)
      | (Pending, ev1, e1) \<Rightarrow> (Pending, Sleep 10 # ev1, e1))"
proof -
  obtain r1 ev1 e1 where r1: "get_local_metric CHECKPOINT e = (r1, ev1, e1)"
    by (cases "get_local_metric CHECKPOINT e") auto
  show ?thesis
  proof (cases r1)
    case (Return c)
    show ?thesis
    proof (cases "c = current_checkpoint s")
      case True
      with r1 Return show ?thesis
        by (simp add: poll_iteration_def and_then_def exit_with_def
            CHECKPOINT_STUCK_THRESHOLD_SEC_def sleep_def say_def)
    next
      case False
      obtain r2 ev2 e2 where r2: "get_local_metric EPOCH e1 = (r2, ev2, e2)"
        by (cases "get_local_metric EPOCH e1") auto
      have chk: "check_epoch (s\<lparr>current_checkpoint := c\<rparr>) e1 =
          (case r2 of
             Return ep \<Rightarrow>
               (case clock e2 of
                  [] \<Rightarrow> (Pending, ev2 @ (if ep > current_epoch s then [Print (NewLocalEpoch ep)] else []), e2)
                | t # ts \<Rightarrow>
                    if ep > current_epoch s
                    then (Return (s\<lparr>current_checkpoint := c, current_epoch := ep, current_time := t\<rparr>),
                          ev2 @ [Print (NewLocalEpoch ep)], e2\<lparr>clock := ts\<rparr>)
                    else if epoch_stuck t (current_time s)
                    then (Exit 1, ev2 @ [Print (EpochStuck (current_epoch s))], e2\<lparr>clock := ts\<rparr>)
                    else (Return (s\<lparr>current_checkpoint := c\<rparr>), ev2, e2\<lparr>clock := ts\<rparr>))
           | Exit n \<Rightarrow> (Exit n, ev2, e2)
           | Raise x \<Rightarrow> (Raise x, ev2, e2)
           | Pending \<Rightarrow> (Pending, ev2, e2))"
        using r2
        by (cases r2; cases "clock e2")
          (simp_all add: check_epoch_def and_then_def now_def ret_def say_def exit_with_def)
      from r1 Return False have "poll_iteration s e =
          (case check_epoch (s\<lparr>current_checkpoint := c\<rparr>) e1 of
             (Return s', ev', e') \<Rightarrow>
               (Return s', Sleep 10 # ev1 @ ev' @ [Print (NewHighestCheckpoint (current_checkpoint s'))], e')
           | (Exit n, ev', e') \<Rightarrow> (Exit n, Sleep 10 # ev1 @ ev', e')
           | (Raise x, ev', e') \<Rightarrow> (Raise x, Sleep 10 # ev1 @ ev', e')
           | (Pending, ev', e') \<Rightarrow> (Pending, Sleep 10 # ev1 @ ev', e'))"
        by (simp add: poll_iteration_def and_then_def sleep_def say_def ret_def
            CHECKPOINT_STUCK_THRESHOLD_SEC_def split: prod.splits outcome.splits)
      with chk r1 r2 Return False show ?thesis
        by (cases r2; cases "clock e2") simp_all
    qed
  next
    case (Exit n)
    with r1 show ?thesis
      by (simp add: poll_iteration_def and_then_def sleep_def CHECKPOINT_STUCK_THRESHOLD_SEC_def)
  next
    case (Raise x)
    with r1 show ?thesis
      by (simp add: poll_iteration_def and_then_def sleep_def CHECKPOINT_STUCK_THRESHOLD_SEC_def)
  next
    case Pending
    with r1 show ?thesis
      by (simp add: poll_iteration_def and_then_def sleep_def CHECKPOINT_STUCK_THRESHOLD_SEC_def)
  qed
qed

subsection \<open>Checkpoint stall\<close>







text \<open>A polling state that has stored checkpoint 500, and environments for its next iteration.\<close>

definition polling_500 :: run_state where
  "polling_500 = \<lparr>start_epoch = 10, current_epoch = 10, end_epoch = 12, start_checkpoint = 498,
                   current_checkpoint = 500, start_time = 0, current_time = 0\<rparr>"





subsection \<open>Startup wait and the run after it\<close>

text \<open>Two outcomes that end the process, or leave it waiting, in the same way.\<close>

fun same_stop :: "'a outcome \<Rightarrow> 'b outcome \<Rightarrow> bool" where
  "same_stop (Exit n) (Exit m) = (n = m)"
| "same_stop (Raise x) (Raise y) = (x = y)"
| "same_stop Pending Pending = True"
| "same_stop _ _ = False"

lemma same_stop_cases:
  "same_stop r out =
     (case out of Return v \<Rightarrow> False | Exit n \<Rightarrow> r = Exit n | Raise x \<Rightarrow> r = Raise x
      | Pending \<Rightarrow> r = Pending)"
  by (cases r; cases out) auto

lemma monitor_after_startup:
  "get_local_metric EPOCH e = (Return epoch0, ev1, e1) \<Longrightarrow>
   get_local_metric CHECKPOINT e1 = (Return c, ev2, e2) \<Longrightarrow>
   await_started c e2 = (Return (), ev3, e3) \<Longrightarrow>
   monitor target e =
     (case sync target epoch0 c e3 of
        (out, ev4, e4) \<Rightarrow>
          (out,
           Print (WillSync target) # ev1 @ Print (CurrentLocalEpoch epoch0) # ev2 @
             Print (HighestCheckpoint c) # ev3 @ ev4,
           e4))"
  by (simp add: monitor_def and_then_returns split: prod.splits)

lemma range_from:
  assumes "k < n"
  shows "drop k [0..<n] = k # [Suc k..<n]"
proof -
  have "drop k [0..<n] = [k..<n]"
    by (simp add: drop_upt)
  also from assms have "\<dots> = k # [Suc k..<n]"
    by (rule upt_conv_Cons)
  finally show ?thesis .
qed

text \<open>
  C9: \<^verbatim>\<open>await_started\<close> reads the checkpoint metric at most
  \<open>START_AWAIT_TIME_SEC = 60\<close> times and sleeps one second after each read that shows no
  change. (1) When the first \<open>k < 60\<close> reads return the start checkpoint and the next one
  differs, it returns at once after that read, printing that the node started after \<open>k\<close>
  seconds. (2) When all 60 reads return the start checkpoint, it prints the startup
  failure and returns normally all the same. (3) It never ends the process itself: when it
  does not return, one of its reads of the metric did not return, and it ends as that
  read ended. (4) Once it has returned, either way, \<^verbatim>\<open>main\<close> goes on with the
  polling phase \<open>sync\<close>.
\<close>

theorem await_started_never_ends_the_run:
  "(k < START_AWAIT_TIME_SEC \<and> steady_reads k c e = Some (evs, e1)
      \<and> get_local_metric CHECKPOINT e1 = (Return v, ev, e2) \<and> v \<noteq> c \<longrightarrow>
        await_started c e = (Return (), awaiting evs @ ev @ [Print (Started k)], e2))
   \<and> (steady_reads START_AWAIT_TIME_SEC c e = Some (evs', e1') \<longrightarrow>
        await_started c e = (Return (), awaiting evs' @ [Print StartFailed], e1'))
   \<and> (fst (await_started c e) \<noteq> Return () \<longrightarrow>
        (\<exists>j<START_AWAIT_TIME_SEC. \<exists>evs'' e1''. steady_reads j c e = Some (evs'', e1'')
           \<and> same_stop (fst (await_started c e)) (fst (get_local_metric CHECKPOINT e1''))))
   \<and> (get_local_metric EPOCH e0 = (Return epoch0, ev01, e01)
      \<and> get_local_metric CHECKPOINT e01 = (Return c, ev02, e)
      \<and> await_started c e = (Return (), ev3, e3) \<longrightarrow>
        monitor target e0 =
          (case sync target epoch0 c e3 of
             (out, ev4, e4) \<Rightarrow>
               (out,
                Print (WillSync target) # ev01 @ Print (CurrentLocalEpoch epoch0) # ev02 @
                  Print (HighestCheckpoint c) # ev3 @ ev4,
                e4)))"
proof (intro conjI impI)
  assume a: "k < START_AWAIT_TIME_SEC \<and> steady_reads k c e = Some (evs, e1)
      \<and> get_local_metric CHECKPOINT e1 = (Return v, ev, e2) \<and> v \<noteq> c"
  then have k: "k \<le> length [0..<START_AWAIT_TIME_SEC]"
    by simp
  from a have dr: "drop k [0..<START_AWAIT_TIME_SEC] = k # [Suc k..<START_AWAIT_TIME_SEC]"
    by (intro range_from) simp
  from a have "await_polls (k # [Suc k..<START_AWAIT_TIME_SEC]) c e1
      = (Return (), ev @ [Print (Started k)], e2)"
    by (simp add: and_then_returns say_def)
  moreover from a have st: "steady_reads k c e = Some (evs, e1)"
    by simp
  note await_polls_steady [OF st k]
  ultimately show "await_started c e = (Return (), awaiting evs @ ev @ [Print (Started k)], e2)"
    using dr by (simp add: await_started_def)
next
  assume a: "steady_reads START_AWAIT_TIME_SEC c e = Some (evs', e1')"
  have k: "START_AWAIT_TIME_SEC \<le> length [0..<START_AWAIT_TIME_SEC]"
    by simp
  from await_polls_steady [OF a k]
  show "await_started c e = (Return (), awaiting evs' @ [Print StartFailed], e1')"
    by (simp add: await_started_def say_def)
next
  assume "fst (await_started c e) \<noteq> Return ()"
  with await_polls_stops [of "[0..<START_AWAIT_TIME_SEC]" c e "fst (await_started c e)"]
  show "\<exists>j<START_AWAIT_TIME_SEC. \<exists>evs'' e1''. steady_reads j c e = Some (evs'', e1'')
           \<and> same_stop (fst (await_started c e)) (fst (get_local_metric CHECKPOINT e1''))"
    unfolding await_started_def same_stop_cases by simp
next
  assume "get_local_metric EPOCH e0 = (Return epoch0, ev01, e01)
      \<and> get_local_metric CHECKPOINT e01 = (Return c, ev02, e)
      \<and> await_started c e = (Return (), ev3, e3)"
  then show "monitor target e0 =
          (case sync target epoch0 c e3 of
             (out, ev4, e4) \<Rightarrow>
               (out,
                Print (WillSync target) # ev01 @ Print (CurrentLocalEpoch epoch0) # ev02 @
                  Print (HighestCheckpoint c) # ev3 @ ev4,
                e4))"
    by (blast intro: monitor_after_startup)
qed

lemma polling_reached:
  "end_epoch s \<le> current_epoch s \<Longrightarrow> polling s e = (Return s, [], e)"
  by (simp add: polling.simps [of s e])

text \<open>
  C10: when the epoch read at startup has already reached the target, then after the
  startup wait the loop body never runs: the run goes on with nothing but the two lines of
  the success report (no 10 second sleep, no read of a metric, no stall message) and ends
  with \<^verbatim>\<open>exit(0)\<close>. The report shows a checkpoint delta of 0, and its elapsed time
  is the difference of two clock readings taken one right after the other.
\<close>

theorem already_synced_exits_at_once:
  assumes "get_local_metric EPOCH e = (Return epoch0, ev1, e1)"
    and "target \<le> epoch0"
    and "get_local_metric CHECKPOINT e1 = (Return c, ev2, e2)"
    and "await_started c e2 = (Return (), ev3, e3)"
    and "clock e3 = t0 # t1 # ts"
  shows "monitor target e =
     (Exit 0,
      Print (WillSync target) # ev1 @ Print (CurrentLocalEpoch epoch0) # ev2 @
        Print (HighestCheckpoint c) # ev3 @
        [Print Separator, Print (Synced target epoch0 0 (t1 - t0))],
      e3\<lparr>clock := ts\<rparr>)"
proof -
  from assms(2,5) have "sync target epoch0 c e3 =
     (Exit 0, [Print Separator, Print (Synced target epoch0 0 (t1 - t0))], e3\<lparr>clock := ts\<rparr>)"
    by (simp add: sync_def and_then_def now_def polling_reached exit_with_def say_def)
  with monitor_after_startup [OF assms(1,3,4), of target] show ?thesis
    by simp
qed

text \<open>
  Environments for the startup wait: the checkpoint moves at the third read (the second
  read needing one retry), never moves, or its second read delivers a line without a
  value; and a node that is at the target epoch already.
\<close>

definition slow_start :: env where
  "slow_start =
     \<lparr>rpc = [],
      metrics = [Output ''last_executed_checkpoint 500'', CalledProcessError 1 [],
                 Output ''last_executed_checkpoint 500'', Output ''last_executed_checkpoint 501''],
      clock = []\<rparr>"

definition never_starts :: env where
  "never_starts =
     \<lparr>rpc = [], metrics = replicate 60 (Output ''last_executed_checkpoint 500''), clock = []\<rparr>"

definition breaks_at_startup :: env where
  "breaks_at_startup =
     \<lparr>rpc = [],
      metrics = [Output ''last_executed_checkpoint 500'', Output ''last_executed_checkpoint''],
      clock = []\<rparr>"

definition already_synced :: env where
  "already_synced =
     \<lparr>rpc = [],
      metrics = [Output ''current_epoch 12'', Output ''last_executed_checkpoint 500'',
                 Output ''last_executed_checkpoint 501''],
      clock = [1000000, 1000040]\<rparr>"

theorem await_started_never_ends_the_run_witness:
  "await_started 500 slow_start =
     (Return (),
      [CurlMetrics CHECKPOINT, Print AwaitingStartup, Sleep 1,
       CurlMetrics CHECKPOINT, Print (CurlFailed 1 []), Sleep 3, CurlMetrics CHECKPOINT,
       Print AwaitingStartup, Sleep 1,
       CurlMetrics CHECKPOINT, Print (Started 2)],
      slow_start\<lparr>metrics := []\<rparr>)
   \<and> await_started 500 never_starts =
     (Return (),
      awaiting (replicate 60 [CurlMetrics CHECKPOINT]) @ [Print StartFailed],
      never_starts\<lparr>metrics := []\<rparr>)
   \<and> fst (await_started 500 breaks_at_startup) = Raise AttributeError
   \<and> (\<exists>j<START_AWAIT_TIME_SEC. \<exists>evs e1. steady_reads j 500 breaks_at_startup = Some (evs, e1)
         \<and> same_stop (fst (await_started 500 breaks_at_startup))
              (fst (get_local_metric CHECKPOINT e1)))
   \<and> monitor 12 already_synced =
     (case sync 12 12 500 (already_synced\<lparr>metrics := []\<rparr>) of
        (out, ev4, e4) \<Rightarrow>
          (out,
           [Print (WillSync 12), CurlMetrics EPOCH, Print (CurrentLocalEpoch 12),
            CurlMetrics CHECKPOINT, Print (HighestCheckpoint 500),
            CurlMetrics CHECKPOINT, Print (Started 0)] @ ev4,
           e4))"
proof -
  note claim = await_started_never_ends_the_run
  have k: "2 < START_AWAIT_TIME_SEC"
    by (simp add: START_AWAIT_TIME_SEC_def)
  have st: "steady_reads 2 500 slow_start =
      Some ([[CurlMetrics CHECKPOINT],
             [CurlMetrics CHECKPOINT, Print (CurlFailed 1 []), Sleep 3, CurlMetrics CHECKPOINT]],
            slow_start\<lparr>metrics := [Output ''last_executed_checkpoint 501'']\<rparr>)"
    by code_simp
  have rd: "get_local_metric CHECKPOINT
        (slow_start\<lparr>metrics := [Output ''last_executed_checkpoint 501'']\<rparr>) =
      (Return 501, [CurlMetrics CHECKPOINT], slow_start\<lparr>metrics := []\<rparr>)"
    by code_simp
  from claim [where k = 2 and c = 500 and e = slow_start, THEN conjunct1, rule_format, OF conjI [OF k conjI [OF st conjI [OF rd]]]]
  have w1: "await_started 500 slow_start =
     (Return (),
      awaiting [[CurlMetrics CHECKPOINT],
             [CurlMetrics CHECKPOINT, Print (CurlFailed 1 []), Sleep 3, CurlMetrics CHECKPOINT]]
        @ [CurlMetrics CHECKPOINT] @ [Print (Started 2)],
      slow_start\<lparr>metrics := []\<rparr>)"
    by simp
  have st60: "steady_reads START_AWAIT_TIME_SEC 500 never_starts =
      Some (replicate 60 [CurlMetrics CHECKPOINT], never_starts\<lparr>metrics := []\<rparr>)"
    by code_simp
  from claim [where c = 500 and e = never_starts, THEN conjunct2, THEN conjunct1, rule_format, OF st60]
  have w2: "await_started 500 never_starts =
     (Return (), awaiting (replicate 60 [CurlMetrics CHECKPOINT]) @ [Print StartFailed],
      never_starts\<lparr>metrics := []\<rparr>)" .
  have w3: "fst (await_started 500 breaks_at_startup) = Raise AttributeError"
    by code_simp
  then have "fst (await_started 500 breaks_at_startup) \<noteq> Return ()"
    by simp
  from claim [where c = 500 and e = breaks_at_startup, THEN conjunct2, THEN conjunct2, THEN conjunct1,
      rule_format, OF this]
  have w4: "\<exists>j<START_AWAIT_TIME_SEC. \<exists>evs e1. steady_reads j 500 breaks_at_startup = Some (evs, e1)
         \<and> same_stop (fst (await_started 500 breaks_at_startup))
              (fst (get_local_metric CHECKPOINT e1))" .
  have r1: "get_local_metric EPOCH already_synced =
      (Return 12, [CurlMetrics EPOCH],
       already_synced\<lparr>metrics := [Output ''last_executed_checkpoint 500'',
                                   Output ''last_executed_checkpoint 501'']\<rparr>)"
    by code_simp
  have r2: "get_local_metric CHECKPOINT
       (already_synced\<lparr>metrics := [Output ''last_executed_checkpoint 500'',
                                   Output ''last_executed_checkpoint 501'']\<rparr>) =
      (Return 500, [CurlMetrics CHECKPOINT],
       already_synced\<lparr>metrics := [Output ''last_executed_checkpoint 501'']\<rparr>)"
    by code_simp
  have r3: "await_started 500 (already_synced\<lparr>metrics := [Output ''last_executed_checkpoint 501'']\<rparr>) =
      (Return (), [CurlMetrics CHECKPOINT, Print (Started 0)], already_synced\<lparr>metrics := []\<rparr>)"
    by code_simp
  from claim [where c = 500 and target = 12, THEN conjunct2, THEN conjunct2, THEN conjunct2,
      rule_format, OF conjI [OF r1 conjI [OF r2 r3]]]
  have w5: "monitor 12 already_synced =
     (case sync 12 12 500 (already_synced\<lparr>metrics := []\<rparr>) of
        (out, ev4, e4) \<Rightarrow>
          (out,
           Print (WillSync 12) # [CurlMetrics EPOCH] @ Print (CurrentLocalEpoch 12) #
             [CurlMetrics CHECKPOINT] @ Print (HighestCheckpoint 500) #
             [CurlMetrics CHECKPOINT, Print (Started 0)] @ ev4,
           e4))" .
  from w1 w2 w3 w4 w5 show ?thesis
    by (simp add: awaiting_def)
qed

theorem already_synced_exits_at_once_witness:
  "monitor 12 already_synced =
     (Exit 0,
      [Print (WillSync 12), CurlMetrics EPOCH, Print (CurrentLocalEpoch 12),
       CurlMetrics CHECKPOINT, Print (HighestCheckpoint 500),
       CurlMetrics CHECKPOINT, Print (Started 0),
       Print Separator, Print (Synced 12 12 0 40)],
      \<lparr>rpc = [], metrics = [], clock = []\<rparr>)"
proof -
  have r1: "get_local_metric EPOCH already_synced =
      (Return 12, [CurlMetrics EPOCH],
       already_synced\<lparr>metrics := [Output ''last_executed_checkpoint 500'',
                                   Output ''last_executed_checkpoint 501'']\<rparr>)"
    by code_simp
  have le: "(12::int) \<le> 12"
    by simp
  have r2: "get_local_metric CHECKPOINT
       (already_synced\<lparr>metrics := [Output ''last_executed_checkpoint 500'',
                                   Output ''last_executed_checkpoint 501'']\<rparr>) =
      (Return 500, [CurlMetrics CHECKPOINT],
       already_synced\<lparr>metrics := [Output ''last_executed_checkpoint 501'']\<rparr>)"
    by code_simp
  have r3: "await_started 500 (already_synced\<lparr>metrics := [Output ''last_executed_checkpoint 501'']\<rparr>) =
      (Return (), [CurlMetrics CHECKPOINT, Print (Started 0)], already_synced\<lparr>metrics := []\<rparr>)"
    by code_simp
  have r4: "clock (already_synced\<lparr>metrics := []\<rparr>) = 1000000 # 1000040 # []"
    by (simp add: already_synced_def)
  from already_synced_exits_at_once [OF r1 le r2 r3 r4]
  show ?thesis
    by (simp add: already_synced_def)
qed

subsection \<open>The end of the loop and the success report\<close>

lemma poll_iteration_keeps:
  "poll_iteration s e = (Return s', ev, e') \<Longrightarrow>
     end_epoch s' = end_epoch s \<and> start_epoch s' = start_epoch s
     \<and> start_checkpoint s' = start_checkpoint s \<and> start_time s' = start_time s"
  by (auto simp: poll_iteration_unfold split: prod.splits outcome.splits if_splits list.splits)

lemma poll_iteration_sleeps_first:
  "\<exists>ev'. fst (snd (poll_iteration s e)) = Sleep 10 # ev'"
  by (simp add: poll_iteration_unfold split: prod.splits outcome.splits list.splits)

lemma polling_Return:
  "polling s e = (Return s', ev, e') \<Longrightarrow>
     end_epoch s' \<le> current_epoch s' \<and> end_epoch s' = end_epoch s
     \<and> start_epoch s' = start_epoch s \<and> start_checkpoint s' = start_checkpoint s
     \<and> start_time s' = start_time s"
proof (induction "length (metrics e)" arbitrary: s e ev rule: less_induct)
  case less
  show ?case
  proof (cases "current_epoch s < end_epoch s")
    case False
    with less.prems show ?thesis
      by (simp add: polling.simps [of s e])
  next
    case True
    obtain r ev1 e1 where it: "poll_iteration s e = (r, ev1, e1)"
      by (cases "poll_iteration s e") auto
    with True less.prems obtain s1 where r: "r = Return s1"
      by (cases r) (simp_all add: polling.simps [of s e])
    from it r have smaller: "length (metrics e1) < length (metrics e)"
      by (auto dest: poll_iteration_consumes)
    from True less.prems it r obtain ev2 where "polling s1 e1 = (Return s', ev2, e')"
      by (auto simp: polling.simps [of s e] split: prod.splits)
    from less.hyps [OF smaller this] poll_iteration_keeps [OF it [unfolded r]]
    show ?thesis by simp
  qed
qed

lemma polling_sleeps_first:
  assumes "current_epoch s < end_epoch s"
  shows "\<exists>ev'. fst (snd (polling s e)) = Sleep 10 # ev'"
proof -
  obtain r ev1 e1 where it: "poll_iteration s e = (r, ev1, e1)"
    by (cases "poll_iteration s e") auto
  with poll_iteration_sleeps_first [of s e] obtain ev' where "ev1 = Sleep 10 # ev'"
    by auto
  with assms it show ?thesis
    by (cases r) (auto simp: polling.simps [of s e] split: prod.splits)
qed

text \<open>
  C6: (1) when the loop ends normally, the current epoch has reached the target;
  (2) when the current epoch has reached the target, the loop ends at once, with no
  further event; (3) otherwise it runs another iteration, which begins with the 10 second
  sleep. (4) When the loop has ended normally, the run reads the clock, prints the
  separator and the report, and ends with \<^verbatim>\<open>exit(0)\<close>. The report shows the target
  epoch, the start epoch, the last stored checkpoint minus the start checkpoint, and the
  time between the clock reading taken on entry to the loop (the first reading of the
  whole run, taken after the startup wait) and the one taken after the loop.
\<close>

theorem sync_ends_at_target_with_report:
  "(polling s e = (Return s', ev, e') \<longrightarrow> end_epoch s' \<le> current_epoch s')
   \<and> (end_epoch s \<le> current_epoch s \<longrightarrow> polling s e = (Return s, [], e))
   \<and> (current_epoch s < end_epoch s \<longrightarrow> (\<exists>ev'. fst (snd (polling s e)) = Sleep 10 # ev'))
   \<and> (clock e0 = t0 # ts
       \<and> polling \<lparr>start_epoch = epoch0, current_epoch = epoch0, end_epoch = target,
                   start_checkpoint = checkpoint0, current_checkpoint = checkpoint0,
                   start_time = t0, current_time = t0\<rparr> (e0\<lparr>clock := ts\<rparr>)
           = (Return s1, ev1, e1)
       \<and> clock e1 = t1 # ts1 \<longrightarrow>
         sync target epoch0 checkpoint0 e0 =
           (Exit 0,
            ev1 @ [Print Separator,
                   Print (Synced target epoch0 (current_checkpoint s1 - checkpoint0) (t1 - t0))],
            e1\<lparr>clock := ts1\<rparr>))"
proof (intro conjI impI)
  assume "polling s e = (Return s', ev, e')"
  then show "end_epoch s' \<le> current_epoch s'"
    by (blast dest: polling_Return)
next
  assume "end_epoch s \<le> current_epoch s"
  then show "polling s e = (Return s, [], e)"
    by (rule polling_reached)
next
  assume "current_epoch s < end_epoch s"
  then show "\<exists>ev'. fst (snd (polling s e)) = Sleep 10 # ev'"
    by (rule polling_sleeps_first)
next
  assume a: "clock e0 = t0 # ts
       \<and> polling \<lparr>start_epoch = epoch0, current_epoch = epoch0, end_epoch = target,
                   start_checkpoint = checkpoint0, current_checkpoint = checkpoint0,
                   start_time = t0, current_time = t0\<rparr> (e0\<lparr>clock := ts\<rparr>)
           = (Return s1, ev1, e1)
       \<and> clock e1 = t1 # ts1"
  then have run: "polling \<lparr>start_epoch = epoch0, current_epoch = epoch0, end_epoch = target,
                   start_checkpoint = checkpoint0, current_checkpoint = checkpoint0,
                   start_time = t0, current_time = t0\<rparr> (e0\<lparr>clock := ts\<rparr>)
           = (Return s1, ev1, e1)"
    by simp
  from polling_Return [OF run]
  have keep: "end_epoch s1 = target" "start_epoch s1 = epoch0"
    "start_checkpoint s1 = checkpoint0" "start_time s1 = t0"
    by simp_all
  from a keep show "sync target epoch0 checkpoint0 e0 =
           (Exit 0,
            ev1 @ [Print Separator,
                   Print (Synced target epoch0 (current_checkpoint s1 - checkpoint0) (t1 - t0))],
            e1\<lparr>clock := ts1\<rparr>)"
    by (simp add: sync_def and_then_def now_def exit_with_def say_def)
qed

text \<open>
  The run of the specification's example: start epoch 10, target 12, epoch readings 10 (at
  startup), 10, 11, 12, with a checkpoint that moves at every poll; first from the entry
  to the loop, then as a whole run of \<^verbatim>\<open>main\<close> with \<^verbatim>\<open>--end-epoch=12\<close>.
\<close>

definition three_polls :: env where
  "three_polls =
     \<lparr>rpc = [],
      metrics = [Output ''last_executed_checkpoint 501'', Output ''current_epoch 10'',
                 Output ''last_executed_checkpoint 502'', Output ''current_epoch 11'',
                 Output ''last_executed_checkpoint 503'', Output ''current_epoch 12''],
      clock = [0, 10000000, 20000000, 30000000, 30000300]\<rparr>"

definition ten_to_twelve :: env where
  "ten_to_twelve =
     \<lparr>rpc = [],
      metrics = [Output ''current_epoch 10'', Output ''last_executed_checkpoint 499'',
                 Output ''last_executed_checkpoint 500'',
                 Output ''last_executed_checkpoint 501'', Output ''current_epoch 10'',
                 Output ''last_executed_checkpoint 502'', Output ''current_epoch 11'',
                 Output ''last_executed_checkpoint 503'', Output ''current_epoch 12''],
      clock = [0, 10000000, 20000000, 30000000, 30000300]\<rparr>"

theorem sync_ends_at_target_with_report_witness:
  "sync 12 10 500 three_polls =
     (Exit 0,
      [Sleep 10, CurlMetrics CHECKPOINT, CurlMetrics EPOCH, Print (NewHighestCheckpoint 501),
       Sleep 10, CurlMetrics CHECKPOINT, CurlMetrics EPOCH, Print (NewLocalEpoch 11),
       Print (NewHighestCheckpoint 502),
       Sleep 10, CurlMetrics CHECKPOINT, CurlMetrics EPOCH, Print (NewLocalEpoch 12),
       Print (NewHighestCheckpoint 503),
       Print Separator, Print (Synced 12 10 3 30000300)],
      \<lparr>rpc = [], metrics = [], clock = []\<rparr>)
   \<and> fst (main [''--end-epoch=12''] ten_to_twelve) = Exit 0
   \<and> last (fst (snd (main [''--end-epoch=12''] ten_to_twelve))) = Print (Synced 12 10 4 30000300)"
proof -
  have c: "clock three_polls = 0 # [10000000, 20000000, 30000000, 30000300]"
    by (simp add: three_polls_def)
  have run: "polling \<lparr>start_epoch = 10, current_epoch = 10, end_epoch = 12,
                   start_checkpoint = 500, current_checkpoint = 500,
                   start_time = 0, current_time = 0\<rparr>
               (three_polls\<lparr>clock := [10000000, 20000000, 30000000, 30000300]\<rparr>)
           = (Return \<lparr>start_epoch = 10, current_epoch = 12, end_epoch = 12,
                   start_checkpoint = 500, current_checkpoint = 503,
                   start_time = 0, current_time = 30000000\<rparr>,
              [Sleep 10, CurlMetrics CHECKPOINT, CurlMetrics EPOCH, Print (NewHighestCheckpoint 501),
               Sleep 10, CurlMetrics CHECKPOINT, CurlMetrics EPOCH, Print (NewLocalEpoch 11),
               Print (NewHighestCheckpoint 502),
               Sleep 10, CurlMetrics CHECKPOINT, CurlMetrics EPOCH, Print (NewLocalEpoch 12),
               Print (NewHighestCheckpoint 503)],
              \<lparr>rpc = [], metrics = [], clock = [30000300]\<rparr>)"
    by code_simp
  have c1: "clock \<lparr>rpc = [], metrics = [], clock = [30000300]\<rparr> = 30000300 # []"
    by simp
  from sync_ends_at_target_with_report [THEN conjunct2, THEN conjunct2, THEN conjunct2,
      rule_format, OF conjI [OF c conjI [OF run c1]]]
  have w1: "sync 12 10 500 three_polls =
     (Exit 0,
      [Sleep 10, CurlMetrics CHECKPOINT, CurlMetrics EPOCH, Print (NewHighestCheckpoint 501),
       Sleep 10, CurlMetrics CHECKPOINT, CurlMetrics EPOCH, Print (NewLocalEpoch 11),
       Print (NewHighestCheckpoint 502),
       Sleep 10, CurlMetrics CHECKPOINT, CurlMetrics EPOCH, Print (NewLocalEpoch 12),
       Print (NewHighestCheckpoint 503),
       Print Separator, Print (Synced 12 10 3 30000300)],
      \<lparr>rpc = [], metrics = [], clock = []\<rparr>)"
    by simp
  have w2: "fst (main [''--end-epoch=12''] ten_to_twelve) = Exit 0"
    by code_simp
  have w3: "last (fst (snd (main [''--end-epoch=12''] ten_to_twelve))) = Print (Synced 12 10 4 30000300)"
    by code_simp
  from w1 w2 w3 show ?thesis
    by simp
qed

subsection \<open>Epoch stall\<close>

text \<open>
  What the loop will see: the rounds the environment delivers from the entry to the loop
  on, each made of a checkpoint read, an epoch read and the clock reading that follows
  them, for as long as these reads return.
\<close>

function rounds :: "env \<Rightarrow> (int \<times> int \<times> int) list" where
  "rounds e =
     (case get_local_metric CHECKPOINT e of
        (Return c, ev1, e1) \<Rightarrow>
          (case get_local_metric EPOCH e1 of
             (Return ep, ev2, e2) \<Rightarrow>
               (case clock e2 of
                  [] \<Rightarrow> []
                | t # ts \<Rightarrow> (c, ep, t) # rounds (e2\<lparr>clock := ts\<rparr>))
           | _ \<Rightarrow> [])
      | _ \<Rightarrow> [])"
  by pat_completeness auto
termination
  apply (relation "measure (\<lambda>e. length (metrics e))")
   apply simp
  apply (auto dest!: get_local_metric_consumes [OF sym])
  done

declare rounds.simps [simp del]

text \<open>
  \<open>advances_in_time best since rs\<close>: in the rounds \<open>rs\<close>, every epoch reading that is
  not higher than all readings before it (\<open>best\<close> is the highest of them) is taken at
  most 19 minutes after the clock reading \<open>since\<close> of the last reading that was higher,
  or of the entry to the loop.
\<close>

fun advances_in_time :: "int \<Rightarrow> int \<Rightarrow> (int \<times> int \<times> int) list \<Rightarrow> bool" where
  "advances_in_time best since [] = True"
| "advances_in_time best since ((c, ep, t) # rs) =
     (if ep > best then advances_in_time ep t rs
      else t - since \<le> 19 * 60 * 1000000 \<and> advances_in_time best since rs)"

lemma metric_attempts_no_stall_message:
  "metric_attempts is metric e = (r, ev, e') \<Longrightarrow> Print (EpochStuck m) \<notin> set ev"
proof (induction "is" arbitrary: e r ev e')
  case Nil
  then show ?case by auto
next
  case (Cons i "is")
  show ?case
  proof (cases "metrics e")
    case Nil
    with Cons.prems show ?thesis by auto
  next
    case (Cons x xs)
    note env = this
    show ?thesis
    proof (cases "metric_attempt metric i x")
      case (Success v)
      with Cons.prems env show ?thesis by auto
    next
      case (Uncaught y)
      with Cons.prems env show ?thesis by auto
    next
      case (Retry evs)
      then have evs: "Print (EpochStuck m) \<notin> set evs"
        by (auto simp: metric_attempt_def metric_handler_def
            split: fetch.splits sum.splits option.splits if_splits)
      obtain r2 ev2 e2 where rec: "metric_attempts is metric (e\<lparr>metrics := xs\<rparr>) = (r2, ev2, e2)"
        by (cases "metric_attempts is metric (e\<lparr>metrics := xs\<rparr>)") auto
      from Cons.IH [OF rec] have "Print (EpochStuck m) \<notin> set ev2" .
      with Cons.prems env Retry rec evs show ?thesis by auto
    qed
  qed
qed

lemma get_local_metric_no_stall_message:
  "get_local_metric metric e = (r, ev, e') \<Longrightarrow> Print (EpochStuck m) \<notin> set ev"
  unfolding get_local_metric_def by (rule metric_attempts_no_stall_message)

lemma poll_iteration_round:
  assumes "poll_iteration s e = (Return s', ev, e')"
  shows "\<exists>c ep t. rounds e = (c, ep, t) # rounds e'
          \<and> (if ep > current_epoch s
              then current_epoch s' = ep \<and> current_time s' = t
              else current_epoch s' = current_epoch s \<and> current_time s' = current_time s)
          \<and> Print (EpochStuck m) \<notin> set ev"
proof -
  obtain r1 ev1 e1 where r1: "get_local_metric CHECKPOINT e = (r1, ev1, e1)"
    by (cases "get_local_metric CHECKPOINT e") auto
  with assms obtain c where c: "r1 = Return c" "c \<noteq> current_checkpoint s"
    by (cases r1) (auto simp: poll_iteration_unfold split: if_splits)
  obtain r2 ev2 e2 where r2: "get_local_metric EPOCH e1 = (r2, ev2, e2)"
    by (cases "get_local_metric EPOCH e1") auto
  with assms r1 c obtain ep where ep: "r2 = Return ep"
    by (cases r2) (auto simp: poll_iteration_unfold)
  from assms r1 c r2 ep obtain t ts where t: "clock e2 = t # ts"
    by (cases "clock e2") (auto simp: poll_iteration_unfold)
  from r1 c r2 ep t have rd: "rounds e = (c, ep, t) # rounds (e2\<lparr>clock := ts\<rparr>)"
    by (simp add: rounds.simps [of e])
  from get_local_metric_no_stall_message [OF r1] get_local_metric_no_stall_message [OF r2]
  have quiet: "Print (EpochStuck m) \<notin> set ev1" "Print (EpochStuck m) \<notin> set ev2"
    by simp_all
  from assms r1 c r2 ep t rd quiet show ?thesis
    by (auto simp: poll_iteration_unfold split: if_splits)
qed

lemma poll_iteration_stall:
  assumes "poll_iteration s e = (r, ev, e')" and "Print (EpochStuck m) \<in> set ev"
  shows "\<exists>c ep t rs. rounds e = (c, ep, t) # rs \<and> \<not> ep > current_epoch s
          \<and> epoch_stuck t (current_time s)"
proof -
  obtain r1 ev1 e1 where r1: "get_local_metric CHECKPOINT e = (r1, ev1, e1)"
    by (cases "get_local_metric CHECKPOINT e") auto
  from get_local_metric_no_stall_message [OF r1]
  have q1: "Print (EpochStuck m) \<notin> set ev1" .
  with assms r1 obtain c where c: "r1 = Return c" "c \<noteq> current_checkpoint s"
    by (cases r1) (auto simp: poll_iteration_unfold split: if_splits)
  obtain r2 ev2 e2 where r2: "get_local_metric EPOCH e1 = (r2, ev2, e2)"
    by (cases "get_local_metric EPOCH e1") auto
  from get_local_metric_no_stall_message [OF r2]
  have q2: "Print (EpochStuck m) \<notin> set ev2" .
  with assms r1 c r2 q1 obtain ep where ep: "r2 = Return ep"
    by (cases r2) (auto simp: poll_iteration_unfold)
  from assms r1 c r2 ep q1 q2 obtain t ts where t: "clock e2 = t # ts"
    by (cases "clock e2") (auto simp: poll_iteration_unfold split: if_splits)
  from r1 c r2 ep t have rd: "rounds e = (c, ep, t) # rounds (e2\<lparr>clock := ts\<rparr>)"
    by (simp add: rounds.simps [of e])
  from assms r1 c r2 ep t q1 q2 have "\<not> ep > current_epoch s \<and> epoch_stuck t (current_time s)"
    by (auto simp: poll_iteration_unfold split: if_splits)
  with rd show ?thesis by blast
qed

lemma polling_no_epoch_stall:
  "advances_in_time (current_epoch s) (current_time s) (rounds e) \<Longrightarrow>
     Print (EpochStuck m) \<notin> set (fst (snd (polling s e)))"
proof (induction "length (metrics e)" arbitrary: s e rule: less_induct)
  case less
  show ?case
  proof (cases "current_epoch s < end_epoch s")
    case False
    then show ?thesis
      by (simp add: polling.simps [of s e])
  next
    case True
    obtain r ev1 e1 where it: "poll_iteration s e = (r, ev1, e1)"
      by (cases "poll_iteration s e") auto
    have no_stall_here: "Print (EpochStuck m) \<notin> set ev1"
    proof
      assume "Print (EpochStuck m) \<in> set ev1"
      from poll_iteration_stall [OF it this] obtain c ep t rs where
        "rounds e = (c, ep, t) # rs" "\<not> ep > current_epoch s" "epoch_stuck t (current_time s)"
        by blast
      with less.prems show False
        by (simp add: epoch_stuck_def EPOCH_STUCK_THRESHOLD_SEC_def)
    qed
    show ?thesis
    proof (cases r)
      case (Return s1)
      from it Return have smaller: "length (metrics e1) < length (metrics e)"
        by (auto dest: poll_iteration_consumes)
      from poll_iteration_round [OF it [unfolded Return], of m] obtain c ep t where
        rd: "rounds e = (c, ep, t) # rounds e1" and
        st: "if ep > current_epoch s
              then current_epoch s1 = ep \<and> current_time s1 = t
              else current_epoch s1 = current_epoch s \<and> current_time s1 = current_time s"
        by blast
      from less.prems rd st
      have "advances_in_time (current_epoch s1) (current_time s1) (rounds e1)"
        by (auto split: if_splits)
      from less.hyps [OF smaller this]
      have "Print (EpochStuck m) \<notin> set (fst (snd (polling s1 e1)))" .
      with True it Return no_stall_here show ?thesis
        by (auto simp: polling.simps [of s e] split: prod.splits)
    next
      case (Exit n)
      with True it no_stall_here show ?thesis
        by (simp add: polling.simps [of s e])
    next
      case (Raise x)
      with True it no_stall_here show ?thesis
        by (simp add: polling.simps [of s e])
    next
      case Pending
      with True it no_stall_here show ?thesis
        by (simp add: polling.simps [of s e])
    qed
  qed
qed

text \<open>
  The same with "higher than the reading before it". For a gauge that never goes down the
  two conditions are one.
\<close>

fun rises_in_time :: "int \<Rightarrow> int \<Rightarrow> (int \<times> int \<times> int) list \<Rightarrow> bool" where
  "rises_in_time previous since [] = True"
| "rises_in_time previous since ((c, ep, t) # rs) =
     (if ep > previous then rises_in_time ep t rs
      else t - since \<le> 19 * 60 * 1000000 \<and> rises_in_time ep since rs)"

lemma rises_in_time_sorted:
  "sorted (previous # map (\<lambda>(c, ep, t). ep) rs) \<Longrightarrow>
     rises_in_time previous since rs = advances_in_time previous since rs"
proof (induction rs arbitrary: previous since)
  case Nil
  then show ?case by simp
next
  case (Cons r rs)
  obtain c ep t where r: "r = (c, ep, t)"
    by (cases r) auto
  from Cons.prems r have le: "previous \<le> ep" and tail: "sorted (ep # map (\<lambda>(c, ep, t). ep) rs)"
    by simp_all
  show ?case
  proof (cases "ep > previous")
    case True
    with r Cons.IH [OF tail] show ?thesis by simp
  next
    case False
    with le have "ep = previous" by simp
    with r Cons.IH [OF tail] show ?thesis by simp
  qed
qed

text \<open>
  The ending that section 4.3 of the specification gives to a sequence of rounds, read
  from the readings alone: \<open>stored\<close> is the checkpoint of the round before, \<open>best\<close> the
  highest epoch read so far, and \<open>since\<close> the clock reading of the round in which the
  epoch last advanced (of the entry to the loop, when it has not advanced yet). The epoch
  stall is the first round, before the target is reached, whose checkpoint has moved,
  whose epoch is no advance, and whose clock reading is more than 20 minutes after
  \<open>since\<close>.
\<close>

datatype verdict = Reached | CheckpointStall | EpochStall | Unfinished

fun verdict_on :: "int \<Rightarrow> int \<Rightarrow> int \<Rightarrow> int \<Rightarrow> (int \<times> int \<times> int) list \<Rightarrow> verdict" where
  "verdict_on target stored best since [] = (if target \<le> best then Reached else Unfinished)"
| "verdict_on target stored best since ((c, ep, t) # rs) =
     (if target \<le> best then Reached
      else if c = stored then CheckpointStall
      else if ep > best then verdict_on target c ep t rs
      else if t - since > 20 * 60 * 1000000 then EpochStall
      else verdict_on target c best since rs)"

lemma rounds_Cons:
  "rounds e = (c, ep, t) # rs \<Longrightarrow>
     \<exists>ev1 e1 ev2 e2 ts. get_local_metric CHECKPOINT e = (Return c, ev1, e1)
        \<and> get_local_metric EPOCH e1 = (Return ep, ev2, e2) \<and> clock e2 = t # ts
        \<and> rs = rounds (e2\<lparr>clock := ts\<rparr>)"
  by (auto simp: rounds.simps [of e] split: prod.splits outcome.splits list.splits)

lemma polling_epoch_stall:
  "verdict_on (end_epoch s) (current_checkpoint s) (current_epoch s) (current_time s) (rounds e)
     = EpochStall \<Longrightarrow>
   \<exists>ev m e'. polling s e = (Exit 1, ev @ [Print (EpochStuck m)], e')"
proof (induction "length (metrics e)" arbitrary: s e rule: less_induct)
  case less
  from less.prems obtain c ep t rs where rd: "rounds e = (c, ep, t) # rs"
    by (cases "rounds e") (auto split: if_splits)
  from less.prems rd have go: "current_epoch s < end_epoch s" and moved: "c \<noteq> current_checkpoint s"
    by (auto split: if_splits)
  from rounds_Cons [OF rd] obtain ev1 e1 ev2 e2 ts where
    r1: "get_local_metric CHECKPOINT e = (Return c, ev1, e1)" and
    r2: "get_local_metric EPOCH e1 = (Return ep, ev2, e2)" and
    ck: "clock e2 = t # ts" and rs: "rs = rounds (e2\<lparr>clock := ts\<rparr>)"
    by blast
  show ?case
  proof (cases "ep > current_epoch s")
    case True
    let ?s1 = "s\<lparr>current_checkpoint := c, current_epoch := ep, current_time := t\<rparr>"
    from r1 r2 ck moved True have it: "poll_iteration s e =
        (Return ?s1, Sleep 10 # ev1 @ ev2 @ [Print (NewLocalEpoch ep), Print (NewHighestCheckpoint c)],
         e2\<lparr>clock := ts\<rparr>)"
      by (simp add: poll_iteration_unfold)
    then have smaller: "length (metrics (e2\<lparr>clock := ts\<rparr>)) < length (metrics e)"
      by (rule poll_iteration_consumes)
    from less.prems rd go moved True rs
    have "verdict_on (end_epoch ?s1) (current_checkpoint ?s1) (current_epoch ?s1) (current_time ?s1)
        (rounds (e2\<lparr>clock := ts\<rparr>)) = EpochStall"
      by simp
    from less.hyps [OF smaller this] obtain ev m e' where
      "polling ?s1 (e2\<lparr>clock := ts\<rparr>) = (Exit 1, ev @ [Print (EpochStuck m)], e')"
      by blast
    with go it have "polling s e =
        (Exit 1, (Sleep 10 # ev1 @ ev2 @ [Print (NewLocalEpoch ep), Print (NewHighestCheckpoint c)] @ ev)
           @ [Print (EpochStuck m)], e')"
      by (simp add: polling.simps [of s e])
    then show ?thesis by blast
  next
    case False
    show ?thesis
    proof (cases "epoch_stuck t (current_time s)")
      case True
      with r1 r2 ck moved False have "poll_iteration s e =
          (Exit 1, Sleep 10 # ev1 @ ev2 @ [Print (EpochStuck (current_epoch s))], e2\<lparr>clock := ts\<rparr>)"
        by (simp add: poll_iteration_unfold)
      with go have "polling s e =
          (Exit 1, (Sleep 10 # ev1 @ ev2) @ [Print (EpochStuck (current_epoch s))], e2\<lparr>clock := ts\<rparr>)"
        by (simp add: polling.simps [of s e])
      then show ?thesis by blast
    next
      case idle: False
      let ?s1 = "s\<lparr>current_checkpoint := c\<rparr>"
      from r1 r2 ck moved False idle have it: "poll_iteration s e =
          (Return ?s1, Sleep 10 # ev1 @ ev2 @ [Print (NewHighestCheckpoint c)], e2\<lparr>clock := ts\<rparr>)"
        by (simp add: poll_iteration_unfold)
      then have smaller: "length (metrics (e2\<lparr>clock := ts\<rparr>)) < length (metrics e)"
        by (rule poll_iteration_consumes)
      from less.prems rd go moved False idle rs
      have "verdict_on (end_epoch ?s1) (current_checkpoint ?s1) (current_epoch ?s1) (current_time ?s1)
          (rounds (e2\<lparr>clock := ts\<rparr>)) = EpochStall"
        by (simp add: epoch_stuck_def EPOCH_STUCK_THRESHOLD_SEC_def)
      from less.hyps [OF smaller this] obtain ev m e' where
        "polling ?s1 (e2\<lparr>clock := ts\<rparr>) = (Exit 1, ev @ [Print (EpochStuck m)], e')"
        by blast
      with go it have "polling s e =
          (Exit 1, (Sleep 10 # ev1 @ ev2 @ [Print (NewHighestCheckpoint c)] @ ev)
             @ [Print (EpochStuck m)], e')"
        by (simp add: polling.simps [of s e])
      then show ?thesis by blast
    qed
  qed
qed

lemma poll_iteration_stall_round:
  assumes "poll_iteration s e = (r, ev, e')" and "Print (EpochStuck m) \<in> set ev"
  shows "\<exists>c ep t rs. rounds e = (c, ep, t) # rs \<and> c \<noteq> current_checkpoint s
          \<and> \<not> ep > current_epoch s \<and> epoch_stuck t (current_time s)"
proof -
  obtain r1 ev1 e1 where r1: "get_local_metric CHECKPOINT e = (r1, ev1, e1)"
    by (cases "get_local_metric CHECKPOINT e") auto
  from get_local_metric_no_stall_message [OF r1]
  have q1: "Print (EpochStuck m) \<notin> set ev1" .
  with assms r1 obtain c where c: "r1 = Return c" "c \<noteq> current_checkpoint s"
    by (cases r1) (auto simp: poll_iteration_unfold split: if_splits)
  obtain r2 ev2 e2 where r2: "get_local_metric EPOCH e1 = (r2, ev2, e2)"
    by (cases "get_local_metric EPOCH e1") auto
  from get_local_metric_no_stall_message [OF r2]
  have q2: "Print (EpochStuck m) \<notin> set ev2" .
  with assms r1 c r2 q1 obtain ep where ep: "r2 = Return ep"
    by (cases r2) (auto simp: poll_iteration_unfold)
  from assms r1 c r2 ep q1 q2 obtain t ts where t: "clock e2 = t # ts"
    by (cases "clock e2") (auto simp: poll_iteration_unfold split: if_splits)
  from r1 c r2 ep t have rd: "rounds e = (c, ep, t) # rounds (e2\<lparr>clock := ts\<rparr>)"
    by (simp add: rounds.simps [of e])
  from assms r1 c r2 ep t q1 q2 have "\<not> ep > current_epoch s \<and> epoch_stuck t (current_time s)"
    by (auto simp: poll_iteration_unfold split: if_splits)
  with rd c show ?thesis by blast
qed

lemma poll_iteration_next_round:
  assumes "poll_iteration s e = (Return s', ev, e')"
  shows "\<exists>c ep t. rounds e = (c, ep, t) # rounds e' \<and> c \<noteq> current_checkpoint s
          \<and> end_epoch s' = end_epoch s \<and> current_checkpoint s' = c
          \<and> (if ep > current_epoch s
              then current_epoch s' = ep \<and> current_time s' = t
              else current_epoch s' = current_epoch s \<and> current_time s' = current_time s
                   \<and> \<not> epoch_stuck t (current_time s))"
proof -
  obtain r1 ev1 e1 where r1: "get_local_metric CHECKPOINT e = (r1, ev1, e1)"
    by (cases "get_local_metric CHECKPOINT e") auto
  with assms obtain c where c: "r1 = Return c" "c \<noteq> current_checkpoint s"
    by (cases r1) (auto simp: poll_iteration_unfold split: if_splits)
  obtain r2 ev2 e2 where r2: "get_local_metric EPOCH e1 = (r2, ev2, e2)"
    by (cases "get_local_metric EPOCH e1") auto
  with assms r1 c obtain ep where ep: "r2 = Return ep"
    by (cases r2) (auto simp: poll_iteration_unfold)
  from assms r1 c r2 ep obtain t ts where t: "clock e2 = t # ts"
    by (cases "clock e2") (auto simp: poll_iteration_unfold)
  from r1 c r2 ep t have rd: "rounds e = (c, ep, t) # rounds (e2\<lparr>clock := ts\<rparr>)"
    by (simp add: rounds.simps [of e])
  from assms r1 c r2 ep t rd show ?thesis
    by (auto simp: poll_iteration_unfold split: if_splits)
qed

lemma polling_stall_called_for:
  "Print (EpochStuck m) \<in> set (fst (snd (polling s e))) \<Longrightarrow>
   verdict_on (end_epoch s) (current_checkpoint s) (current_epoch s) (current_time s) (rounds e)
     = EpochStall"
proof (induction "length (metrics e)" arbitrary: s e rule: less_induct)
  case less
  from less.prems have go: "current_epoch s < end_epoch s"
    by (cases "current_epoch s < end_epoch s") (simp_all add: polling.simps [of s e])
  obtain r ev1 e1 where it: "poll_iteration s e = (r, ev1, e1)"
    by (cases "poll_iteration s e") auto
  show ?case
  proof (cases "Print (EpochStuck m) \<in> set ev1")
    case True
    from poll_iteration_stall_round [OF it True] go show ?thesis
      by (auto simp: epoch_stuck_def EPOCH_STUCK_THRESHOLD_SEC_def)
  next
    case False
    with less.prems go it obtain s1 where r: "r = Return s1"
      by (cases r) (simp_all add: polling.simps [of s e])
    from it r have smaller: "length (metrics e1) < length (metrics e)"
      by (auto dest: poll_iteration_consumes)
    from less.prems go it r False
    have "Print (EpochStuck m) \<in> set (fst (snd (polling s1 e1)))"
      by (auto simp: polling.simps [of s e] split: prod.splits)
    from less.hyps [OF smaller this]
    have next_verdict: "verdict_on (end_epoch s1) (current_checkpoint s1) (current_epoch s1)
        (current_time s1) (rounds e1) = EpochStall" .
    from poll_iteration_next_round [OF it [unfolded r]] obtain c ep t where
      "rounds e = (c, ep, t) # rounds e1" "c \<noteq> current_checkpoint s"
      "end_epoch s1 = end_epoch s" "current_checkpoint s1 = c"
      "if ep > current_epoch s
       then current_epoch s1 = ep \<and> current_time s1 = t
       else current_epoch s1 = current_epoch s \<and> current_time s1 = current_time s
            \<and> \<not> epoch_stuck t (current_time s)"
      by blast
    with next_verdict go show ?thesis
      by (auto simp: epoch_stuck_def EPOCH_STUCK_THRESHOLD_SEC_def split: if_splits)
  qed
qed

lemma sync_unfold:
  assumes "clock e0 = t0 # ts0"
    and "polling \<lparr>start_epoch = epoch0, current_epoch = epoch0, end_epoch = target,
                   start_checkpoint = checkpoint0, current_checkpoint = checkpoint0,
                   start_time = t0, current_time = t0\<rparr> (e0\<lparr>clock := ts0\<rparr>) = (r, ev1, e1)"
  shows "sync target epoch0 checkpoint0 e0 =
     (case r of
        Return s \<Rightarrow>
          (case clock e1 of
             [] \<Rightarrow> (Pending, ev1, e1)
           | t # ts \<Rightarrow>
               (Exit 0,
                ev1 @ [Print Separator,
                       Print (Synced (end_epoch s) (start_epoch s)
                                (current_checkpoint s - start_checkpoint s) (t - start_time s))],
                e1\<lparr>clock := ts\<rparr>))
      | Exit n \<Rightarrow> (Exit n, ev1, e1)
      | Raise x \<Rightarrow> (Raise x, ev1, e1)
      | Pending \<Rightarrow> (Pending, ev1, e1))"
  using assms
  by (cases r; cases "clock e1")
    (simp_all add: sync_def and_then_def now_def say_def exit_with_def)

text \<open>
  C5: (1) in the polling state, when the checkpoint has moved, the epoch read is not
  higher than the current epoch and the clock reading that follows is more than 20 minutes
  after the stored time, the loop prints the epoch-stall line and ends the process with
  \<^verbatim>\<open>exit(1)\<close>. (2) The stored time is the time of the last advance: in every run whose
  readings hold, before the target is reached and before a checkpoint stall, an epoch
  reading that is no advance and comes more than 20 minutes after the last advance (after
  the entry to the loop, when there was none), the run ends with the epoch-stall line and
  \<^verbatim>\<open>exit(1)\<close>; (3) and the epoch-stall line is printed in no other run. (4) In
  every run in which each epoch reading either exceeds all readings before it or is taken
  at most 19 minutes after the last reading that did (after the entry to the loop, when
  there was none), the epoch-stall line is never printed, however many rounds the run has:
  each advance resets the timer. (5) The same holds when "exceeds all readings before it"
  is replaced by "exceeds the reading before it" and the epoch readings never decrease.
\<close>

theorem epoch_stall_needs_twenty_idle_minutes:
  "(current_epoch s < end_epoch s
      \<and> get_local_metric CHECKPOINT e = (Return c, ev1, e1) \<and> c \<noteq> current_checkpoint s
      \<and> get_local_metric EPOCH e1 = (Return ep, ev2, e2) \<and> clock e2 = t # ts
      \<and> \<not> ep > current_epoch s \<and> t - current_time s > 20 * 60 * 1000000 \<longrightarrow>
        polling s e =
          (Exit 1, Sleep 10 # ev1 @ ev2 @ [Print (EpochStuck (current_epoch s))],
           e2\<lparr>clock := ts\<rparr>))
   \<and> (clock e0 = t0 # ts0
      \<and> verdict_on target checkpoint0 epoch0 t0 (rounds (e0\<lparr>clock := ts0\<rparr>)) = EpochStall \<longrightarrow>
        (\<exists>ev k e'. sync target epoch0 checkpoint0 e0 = (Exit 1, ev @ [Print (EpochStuck k)], e')))
   \<and> (clock e0 = t0 # ts0
      \<and> Print (EpochStuck m) \<in> set (fst (snd (sync target epoch0 checkpoint0 e0))) \<longrightarrow>
        verdict_on target checkpoint0 epoch0 t0 (rounds (e0\<lparr>clock := ts0\<rparr>)) = EpochStall)
   \<and> (clock e0 = t0 # ts0 \<and> advances_in_time epoch0 t0 (rounds (e0\<lparr>clock := ts0\<rparr>)) \<longrightarrow>
        Print (EpochStuck m) \<notin> set (fst (snd (sync target epoch0 checkpoint0 e0))))
   \<and> (clock e0 = t0 # ts0
      \<and> sorted (epoch0 # map (\<lambda>(c, ep, t). ep) (rounds (e0\<lparr>clock := ts0\<rparr>)))
      \<and> rises_in_time epoch0 t0 (rounds (e0\<lparr>clock := ts0\<rparr>)) \<longrightarrow>
        Print (EpochStuck m) \<notin> set (fst (snd (sync target epoch0 checkpoint0 e0))))"
proof -
  let ?s0 = "\<lparr>start_epoch = epoch0, current_epoch = epoch0, end_epoch = target,
              start_checkpoint = checkpoint0, current_checkpoint = checkpoint0,
              start_time = t0, current_time = t0\<rparr>"
  obtain r evp ep1 where run: "polling ?s0 (e0\<lparr>clock := ts0\<rparr>) = (r, evp, ep1)"
    by (cases "polling ?s0 (e0\<lparr>clock := ts0\<rparr>)") auto
  have in_loop: "Print (EpochStuck m) \<in> set (fst (snd (polling ?s0 (e0\<lparr>clock := ts0\<rparr>))))"
    if "clock e0 = t0 # ts0"
      and "Print (EpochStuck m) \<in> set (fst (snd (sync target epoch0 checkpoint0 e0)))"
    using that run sync_unfold [OF that(1) run]
    by (cases r; cases "clock ep1") auto
  have one: "polling s e =
          (Exit 1, Sleep 10 # ev1 @ ev2 @ [Print (EpochStuck (current_epoch s))],
           e2\<lparr>clock := ts\<rparr>)"
    if a: "current_epoch s < end_epoch s
      \<and> get_local_metric CHECKPOINT e = (Return c, ev1, e1) \<and> c \<noteq> current_checkpoint s
      \<and> get_local_metric EPOCH e1 = (Return ep, ev2, e2) \<and> clock e2 = t # ts
      \<and> \<not> ep > current_epoch s \<and> t - current_time s > 20 * 60 * 1000000"
  proof -
    from a have "poll_iteration s e =
          (Exit 1, Sleep 10 # ev1 @ ev2 @ [Print (EpochStuck (current_epoch s))],
           e2\<lparr>clock := ts\<rparr>)"
      by (simp add: poll_iteration_unfold epoch_stuck_def EPOCH_STUCK_THRESHOLD_SEC_def)
    with a show ?thesis
      by (simp add: polling.simps [of s e])
  qed
  have two: "\<exists>ev k e'. sync target epoch0 checkpoint0 e0 = (Exit 1, ev @ [Print (EpochStuck k)], e')"
    if a: "clock e0 = t0 # ts0
      \<and> verdict_on target checkpoint0 epoch0 t0 (rounds (e0\<lparr>clock := ts0\<rparr>)) = EpochStall"
  proof -
    from a have "verdict_on (end_epoch ?s0) (current_checkpoint ?s0) (current_epoch ?s0)
        (current_time ?s0) (rounds (e0\<lparr>clock := ts0\<rparr>)) = EpochStall"
      by simp
    from polling_epoch_stall [OF this] obtain ev k e' where
      stall: "polling ?s0 (e0\<lparr>clock := ts0\<rparr>) = (Exit 1, ev @ [Print (EpochStuck k)], e')"
      by blast
    from a have "clock e0 = t0 # ts0"
      by simp
    from sync_unfold [OF this stall]
    have "sync target epoch0 checkpoint0 e0 = (Exit 1, ev @ [Print (EpochStuck k)], e')"
      by simp
    then show ?thesis by blast
  qed
  have three: "verdict_on target checkpoint0 epoch0 t0 (rounds (e0\<lparr>clock := ts0\<rparr>)) = EpochStall"
    if a: "clock e0 = t0 # ts0
      \<and> Print (EpochStuck m) \<in> set (fst (snd (sync target epoch0 checkpoint0 e0)))"
  proof -
    from a have "Print (EpochStuck m) \<in> set (fst (snd (polling ?s0 (e0\<lparr>clock := ts0\<rparr>))))"
      by (intro in_loop) simp_all
    from polling_stall_called_for [OF this] show ?thesis
      by simp
  qed
  have four: "Print (EpochStuck m) \<notin> set (fst (snd (sync target epoch0 checkpoint0 e0)))"
    if a: "clock e0 = t0 # ts0" "advances_in_time epoch0 t0 (rounds (e0\<lparr>clock := ts0\<rparr>))"
  proof
    assume printed: "Print (EpochStuck m) \<in> set (fst (snd (sync target epoch0 checkpoint0 e0)))"
    from a have "advances_in_time (current_epoch ?s0) (current_time ?s0) (rounds (e0\<lparr>clock := ts0\<rparr>))"
      by simp
    from polling_no_epoch_stall [OF this, of m] in_loop [OF a(1) printed]
    show False by simp
  qed
  have five: "Print (EpochStuck m) \<notin> set (fst (snd (sync target epoch0 checkpoint0 e0)))"
    if a: "clock e0 = t0 # ts0
      \<and> sorted (epoch0 # map (\<lambda>(c, ep, t). ep) (rounds (e0\<lparr>clock := ts0\<rparr>)))
      \<and> rises_in_time epoch0 t0 (rounds (e0\<lparr>clock := ts0\<rparr>))"
  proof -
    from a have c0: "clock e0 = t0 # ts0"
      and mono: "sorted (epoch0 # map (\<lambda>(c, ep, t). ep) (rounds (e0\<lparr>clock := ts0\<rparr>)))"
      and rises: "rises_in_time epoch0 t0 (rounds (e0\<lparr>clock := ts0\<rparr>))"
      by blast+
    from rises rises_in_time_sorted [OF mono, of t0]
    have "advances_in_time epoch0 t0 (rounds (e0\<lparr>clock := ts0\<rparr>))"
      by blast
    with c0 show ?thesis
      by (rule four)
  qed
  from one two three four five show ?thesis
    by blast
qed

text \<open>
  An iteration that finds the epoch unchanged 20 minutes and one microsecond after the
  last advance; a run that polls an unchanged epoch 10 and 21 minutes after the entry to
  the loop; and a run of 38 minutes in which the epoch advances after 19 minutes and again
  19 minutes later.
\<close>

definition epoch_idle :: env where
  "epoch_idle =
     \<lparr>rpc = [],
      metrics = [Output ''last_executed_checkpoint 501'', Output ''current_epoch 10''],
      clock = [1200000001]\<rparr>"

definition idle_for_21_minutes :: env where
  "idle_for_21_minutes =
     \<lparr>rpc = [],
      metrics = [Output ''last_executed_checkpoint 501'', Output ''current_epoch 10'',
                 Output ''last_executed_checkpoint 502'', Output ''current_epoch 10''],
      clock = [0, 600000000, 1260000000]\<rparr>"

definition slow_epochs :: env where
  "slow_epochs =
     \<lparr>rpc = [],
      metrics = [Output ''last_executed_checkpoint 501'', Output ''current_epoch 10'',
                 Output ''last_executed_checkpoint 502'', Output ''current_epoch 11'',
                 Output ''last_executed_checkpoint 503'', Output ''current_epoch 11'',
                 Output ''last_executed_checkpoint 504'', Output ''current_epoch 12''],
      clock = [0, 1140000000, 1150000000, 2280000000, 2290000000, 2290000500]\<rparr>"

theorem epoch_stall_needs_twenty_idle_minutes_witness:
  "polling polling_500 epoch_idle =
     (Exit 1, [Sleep 10, CurlMetrics CHECKPOINT, CurlMetrics EPOCH, Print (EpochStuck 10)],
      \<lparr>rpc = [], metrics = [], clock = []\<rparr>)
   \<and> rounds (idle_for_21_minutes\<lparr>clock := [600000000, 1260000000]\<rparr>)
       = [(501, 10, 600000000), (502, 10, 1260000000)]
   \<and> verdict_on 12 500 10 0 (rounds (idle_for_21_minutes\<lparr>clock := [600000000, 1260000000]\<rparr>))
       = EpochStall
   \<and> sync 12 10 500 idle_for_21_minutes =
       (Exit 1,
        [Sleep 10, CurlMetrics CHECKPOINT, CurlMetrics EPOCH, Print (NewHighestCheckpoint 501),
         Sleep 10, CurlMetrics CHECKPOINT, CurlMetrics EPOCH, Print (EpochStuck 10)],
        \<lparr>rpc = [], metrics = [], clock = []\<rparr>)
   \<and> rounds (slow_epochs\<lparr>clock := [1140000000, 1150000000, 2280000000, 2290000000, 2290000500]\<rparr>)
       = [(501, 10, 1140000000), (502, 11, 1150000000), (503, 11, 2280000000),
          (504, 12, 2290000000)]
   \<and> (\<forall>m. Print (EpochStuck m) \<notin> set (fst (snd (sync 12 10 500 slow_epochs))))
   \<and> fst (sync 12 10 500 slow_epochs) = Exit 0"
proof -
  note claim = epoch_stall_needs_twenty_idle_minutes
  have h1: "current_epoch polling_500 < end_epoch polling_500"
    by (simp add: polling_500_def)
  have h2: "get_local_metric CHECKPOINT epoch_idle =
      (Return 501, [CurlMetrics CHECKPOINT], epoch_idle\<lparr>metrics := [Output ''current_epoch 10'']\<rparr>)"
    by code_simp
  have h3: "501 \<noteq> current_checkpoint polling_500"
    by (simp add: polling_500_def)
  have h4: "get_local_metric EPOCH (epoch_idle\<lparr>metrics := [Output ''current_epoch 10'']\<rparr>) =
      (Return 10, [CurlMetrics EPOCH], epoch_idle\<lparr>metrics := []\<rparr>)"
    by code_simp
  have h5: "clock (epoch_idle\<lparr>metrics := []\<rparr>) = 1200000001 # []"
    by (simp add: epoch_idle_def)
  have h6: "\<not> 10 > current_epoch polling_500"
    by (simp add: polling_500_def)
  have h7: "1200000001 - current_time polling_500 > 20 * 60 * 1000000"
    by (simp add: polling_500_def)
  from claim [THEN conjunct1, rule_format,
      OF conjI [OF h1 conjI [OF h2 conjI [OF h3 conjI [OF h4 conjI [OF h5 conjI [OF h6 h7]]]]]]]
  have w1: "polling polling_500 epoch_idle =
     (Exit 1, [Sleep 10, CurlMetrics CHECKPOINT, CurlMetrics EPOCH, Print (EpochStuck 10)],
      \<lparr>rpc = [], metrics = [], clock = []\<rparr>)"
    by (simp add: polling_500_def epoch_idle_def)
  have i1: "clock idle_for_21_minutes = 0 # [600000000, 1260000000]"
    by (simp add: idle_for_21_minutes_def)
  have i2: "rounds (idle_for_21_minutes\<lparr>clock := [600000000, 1260000000]\<rparr>)
       = [(501, 10, 600000000), (502, 10, 1260000000)]"
    by code_simp
  have i3: "verdict_on 12 500 10 0 (rounds (idle_for_21_minutes\<lparr>clock := [600000000, 1260000000]\<rparr>))
       = EpochStall"
    unfolding i2 by simp
  from claim [THEN conjunct2, THEN conjunct1, rule_format, OF conjI [OF i1 i3]]
  obtain ev k e' where
    stalled: "sync 12 10 500 idle_for_21_minutes = (Exit 1, ev @ [Print (EpochStuck k)], e')"
    by blast
  have i4: "sync 12 10 500 idle_for_21_minutes =
       (Exit 1,
        [Sleep 10, CurlMetrics CHECKPOINT, CurlMetrics EPOCH, Print (NewHighestCheckpoint 501),
         Sleep 10, CurlMetrics CHECKPOINT, CurlMetrics EPOCH, Print (EpochStuck 10)],
        \<lparr>rpc = [], metrics = [], clock = []\<rparr>)"
    by code_simp
  then have "Print (EpochStuck 10) \<in> set (fst (snd (sync 12 10 500 idle_for_21_minutes)))"
    by simp
  from claim [THEN conjunct2, THEN conjunct2, THEN conjunct1, rule_format, OF conjI [OF i1 this]]
  have i5: "verdict_on 12 500 10 0 (rounds (idle_for_21_minutes\<lparr>clock := [600000000, 1260000000]\<rparr>))
       = EpochStall" .
  have g1: "clock slow_epochs = 0 # [1140000000, 1150000000, 2280000000, 2290000000, 2290000500]"
    by (simp add: slow_epochs_def)
  have w2: "rounds (slow_epochs\<lparr>clock := [1140000000, 1150000000, 2280000000, 2290000000, 2290000500]\<rparr>)
       = [(501, 10, 1140000000), (502, 11, 1150000000), (503, 11, 2280000000),
          (504, 12, 2290000000)]"
    by code_simp
  have g2: "advances_in_time 10 0
       (rounds (slow_epochs\<lparr>clock := [1140000000, 1150000000, 2280000000, 2290000000, 2290000500]\<rparr>))"
    unfolding w2 by simp
  have w3: "Print (EpochStuck m) \<notin> set (fst (snd (sync 12 10 500 slow_epochs)))" for m
    by (rule claim [THEN conjunct2, THEN conjunct2, THEN conjunct2, THEN conjunct1, rule_format,
          OF conjI [OF g1 g2]])
  have g3: "sorted (10 # map (\<lambda>(c, ep, t). ep)
       (rounds (slow_epochs\<lparr>clock := [1140000000, 1150000000, 2280000000, 2290000000, 2290000500]\<rparr>)))"
    unfolding w2 by simp
  have g4: "rises_in_time 10 0
       (rounds (slow_epochs\<lparr>clock := [1140000000, 1150000000, 2280000000, 2290000000, 2290000500]\<rparr>))"
    unfolding w2 by simp
  have w5: "Print (EpochStuck m) \<notin> set (fst (snd (sync 12 10 500 slow_epochs)))" for m
    by (rule claim [THEN conjunct2, THEN conjunct2, THEN conjunct2, THEN conjunct2, rule_format,
          OF conjI [OF g1 conjI [OF g3 g4]]])
  have w4: "fst (sync 12 10 500 slow_epochs) = Exit 0"
    by code_simp
  from w1 i2 i3 i4 i5 stalled w2 w3 w4 w5 show ?thesis
    by blast
qed

subsection \<open>The target epoch\<close>

text \<open>
  A piece of the run is offline when it neither launches the remote request nor consumes
  one of its results.
\<close>

definition offline :: "'a run \<Rightarrow> bool" where
  "offline m \<longleftrightarrow>
     (\<forall>e. rpc (snd (snd (m e))) = rpc e \<and> (\<forall>n. CurlRpc n \<notin> set (fst (snd (m e)))))"

lemma offlineI:
  "(\<And>e r ev e'. m e = (r, ev, e') \<Longrightarrow> rpc e' = rpc e \<and> (\<forall>n. CurlRpc n \<notin> set ev)) \<Longrightarrow> offline m"
  unfolding offline_def by (metis prod.collapse)

lemma offlineD:
  "offline m \<Longrightarrow> m e = (r, ev, e') \<Longrightarrow> rpc e' = rpc e \<and> (\<forall>n. CurlRpc n \<notin> set ev)"
  unfolding offline_def by (metis fst_conv snd_conv)

lemma offline_basic [simp]:
  "offline (ret x)" "offline (exit_with k)" "offline (raise y)" "offline (say msg)"
  "offline (sleep d)" "offline now"
  by (auto simp: offline_def ret_def exit_with_def raise_def say_def sleep_def now_def
      split: list.splits)

lemma offline_and_then:
  assumes "offline m" and "\<And>x. offline (f x)"
  shows "offline (and_then m f)"
proof (rule offlineI)
  fix e r ev e'
  assume run: "and_then m f e = (r, ev, e')"
  obtain r1 ev1 e1 where m: "m e = (r1, ev1, e1)"
    by (cases "m e") auto
  from offlineD [OF assms(1) m] have m_ok: "rpc e1 = rpc e" "\<forall>n. CurlRpc n \<notin> set ev1"
    by simp_all
  show "rpc e' = rpc e \<and> (\<forall>n. CurlRpc n \<notin> set ev)"
  proof (cases r1)
    case (Return x)
    obtain r2 ev2 e2 where f: "f x e1 = (r2, ev2, e2)"
      by (cases "f x e1") auto
    from offlineD [OF assms(2) f] have "rpc e2 = rpc e1" "\<forall>n. CurlRpc n \<notin> set ev2"
      by simp_all
    with run m Return f m_ok show ?thesis
      by (auto simp: and_then_def)
  next
    case (Exit k)
    with run m m_ok show ?thesis by (auto simp: and_then_def)
  next
    case (Raise y)
    with run m m_ok show ?thesis by (auto simp: and_then_def)
  next
    case Pending
    with run m m_ok show ?thesis by (auto simp: and_then_def)
  qed
qed

lemma metric_attempt_quiet:
  "metric_attempt metric i x = Retry evs \<Longrightarrow> CurlRpc n \<notin> set evs"
  by (auto simp: metric_attempt_def metric_handler_def
      split: fetch.splits sum.splits option.splits if_splits)

lemma offline_metric_attempts: "offline (metric_attempts is metric)"
proof (induction "is")
  case Nil
  show ?case by (rule offlineI) auto
next
  case (Cons i "is")
  show ?case
  proof (rule offlineI)
    fix e r ev e'
    assume run: "metric_attempts (i # is) metric e = (r, ev, e')"
    show "rpc e' = rpc e \<and> (\<forall>n. CurlRpc n \<notin> set ev)"
    proof (cases "metrics e")
      case Nil
      with run show ?thesis by auto
    next
      case (Cons x xs)
      note env = this
      show ?thesis
      proof (cases "metric_attempt metric i x")
        case (Success v)
        with run env show ?thesis by auto
      next
        case (Uncaught y)
        with run env show ?thesis by auto
      next
        case (Retry evs)
        obtain r2 ev2 e2 where rec: "metric_attempts is metric (e\<lparr>metrics := xs\<rparr>) = (r2, ev2, e2)"
          by (cases "metric_attempts is metric (e\<lparr>metrics := xs\<rparr>)") auto
        from offlineD [OF Cons.IH rec] have "rpc e2 = rpc e" "\<forall>n. CurlRpc n \<notin> set ev2"
          by simp_all
        with run env Retry rec metric_attempt_quiet [OF Retry] show ?thesis
          by auto
      qed
    qed
  qed
qed

lemma offline_get_local_metric [simp]: "offline (get_local_metric metric)"
  unfolding get_local_metric_def by (rule offline_metric_attempts)

lemma offline_await_polls: "offline (await_polls is c)"
  by (induction "is") (auto intro!: offline_and_then)

lemma offline_await_started [simp]: "offline (await_started c)"
  unfolding await_started_def by (rule offline_await_polls)

lemma offline_poll_iteration [simp]: "offline (poll_iteration s)"
  unfolding poll_iteration_def check_epoch_def
  by (auto intro!: offline_and_then)

lemma polling_offline:
  "polling s e = (r, ev, e') \<Longrightarrow> rpc e' = rpc e \<and> (\<forall>n. CurlRpc n \<notin> set ev)"
proof (induction "length (metrics e)" arbitrary: s e r ev e' rule: less_induct)
  case less
  show ?case
  proof (cases "current_epoch s < end_epoch s")
    case False
    with less.prems show ?thesis
      by (simp add: polling.simps [of s e])
  next
    case True
    obtain r1 ev1 e1 where it: "poll_iteration s e = (r1, ev1, e1)"
      by (cases "poll_iteration s e") auto
    from offlineD [OF offline_poll_iteration it]
    have ok: "rpc e1 = rpc e" "\<forall>n. CurlRpc n \<notin> set ev1"
      by simp_all
    show ?thesis
    proof (cases r1)
      case (Return s1)
      from it Return have smaller: "length (metrics e1) < length (metrics e)"
        by (auto dest: poll_iteration_consumes)
      obtain r2 ev2 e2 where rec: "polling s1 e1 = (r2, ev2, e2)"
        by (cases "polling s1 e1") auto
      from less.hyps [OF smaller rec] have "rpc e2 = rpc e1" "\<forall>n. CurlRpc n \<notin> set ev2"
        by simp_all
      with True it Return rec ok less.prems show ?thesis
        by (auto simp: polling.simps [of s e])
    next
      case (Exit k)
      with True it ok less.prems show ?thesis
        by (auto simp: polling.simps [of s e])
    next
      case (Raise y)
      with True it ok less.prems show ?thesis
        by (auto simp: polling.simps [of s e])
    next
      case Pending
      with True it ok less.prems show ?thesis
        by (auto simp: polling.simps [of s e])
    qed
  qed
qed

lemma offline_polling [simp]: "offline (polling s)"
  by (rule offlineI) (rule polling_offline)



















end
